theory Spec2Isabelle
  imports Complex_Main
begin

section \<open>Time arithmetic used by the timeline\<close>

text \<open>
  \<^verbatim>\<open>Timeline.cpp\<close> computes with \<^verbatim>\<open>otime::RationalTime\<close> and \<^verbatim>\<open>otime::TimeRange\<close> of the
  OpenTimelineIO library. A rational time is a pair of a value and a rate; both are
  doubles in the library and exact rationals here, so rounding of the floating-point
  operations is outside this development. The operators below follow the library:
  binary \<open>+\<close> and \<open>-\<close> rescale the operand of the smaller rate to the larger rate, the
  comparisons compare \<open>value / rate\<close>.
\<close>

record RationalTime =
  rvalue :: rat
  rrate :: rat

definition RT :: "rat \<Rightarrow> rat \<Rightarrow> RationalTime" where
  "RT v r = \<lparr>rvalue = v, rrate = r\<rparr>"

definition value_rescaled_to :: "RationalTime \<Rightarrow> rat \<Rightarrow> rat" where
  "value_rescaled_to t new_rate =
     (if new_rate = rrate t then rvalue t else (rvalue t * new_rate) / rrate t)"

definition rescaled_to :: "RationalTime \<Rightarrow> rat \<Rightarrow> RationalTime" where
  "rescaled_to t new_rate = RT (value_rescaled_to t new_rate) new_rate"

definition rt_add :: "RationalTime \<Rightarrow> RationalTime \<Rightarrow> RationalTime" where
  "rt_add a b =
     (if rrate a < rrate b
      then RT (value_rescaled_to a (rrate b) + rvalue b) (rrate b)
      else RT (value_rescaled_to b (rrate a) + rvalue a) (rrate a))"

definition rt_sub :: "RationalTime \<Rightarrow> RationalTime \<Rightarrow> RationalTime" where
  "rt_sub a b =
     (if rrate a < rrate b
      then RT (value_rescaled_to a (rrate b) - rvalue b) (rrate b)
      else RT (rvalue a - value_rescaled_to b (rrate a)) (rrate a))"

definition rt_gt :: "RationalTime \<Rightarrow> RationalTime \<Rightarrow> bool" where
  "rt_gt a b = (rvalue a / rrate a > rvalue b / rrate b)"

definition rt_ge :: "RationalTime \<Rightarrow> RationalTime \<Rightarrow> bool" where
  "rt_ge a b = (rvalue a / rrate a \<ge> rvalue b / rrate b)"

definition rt_lt :: "RationalTime \<Rightarrow> RationalTime \<Rightarrow> bool" where
  "rt_lt a b = (\<not> rt_ge a b)"

definition rt_le :: "RationalTime \<Rightarrow> RationalTime \<Rightarrow> bool" where
  "rt_le a b = (rvalue a / rrate a \<le> rvalue b / rrate b)"

definition rt_floor :: "RationalTime \<Rightarrow> RationalTime" where
  "rt_floor t = RT (of_int \<lfloor>rvalue t\<rfloor>) (rrate t)"

text \<open>\<^verbatim>\<open>time::invalidTime\<close> is declared in \<^verbatim>\<open>tlrCore/Time.h\<close>.\<close>

definition invalidTime :: RationalTime where
  \<comment> \<open>Modelled from the spec: \<^verbatim>\<open>tlrCore/Time.h\<close> is not among the sources, and the
      specification only names the invalid time. It is taken to be the rational time of
      value -1 and rate -1 (a time of non-positive rate is not a valid time); the
      properties below use it by name.\<close>
  "invalidTime = RT (-1) (-1)"

record TimeRange =
  start_time :: RationalTime
  duration :: RationalTime

definition TR :: "RationalTime \<Rightarrow> RationalTime \<Rightarrow> TimeRange" where
  "TR s d = \<lparr>start_time = s, duration = d\<rparr>"

definition end_time_exclusive :: "TimeRange \<Rightarrow> RationalTime" where
  "end_time_exclusive r =
     rt_add (duration r) (rescaled_to (start_time r) (rrate (duration r)))"

definition end_time_inclusive :: "TimeRange \<Rightarrow> RationalTime" where
  "end_time_inclusive r =
     (let et = end_time_exclusive r in
      if rvalue (rt_sub et (rescaled_to (start_time r) (rrate (duration r)))) > 1
      then (if rvalue (duration r) \<noteq> of_int \<lfloor>rvalue (duration r)\<rfloor>
            then rt_floor et
            else rt_sub et (RT 1 (rrate (duration r))))
      else start_time r)"

definition contains :: "TimeRange \<Rightarrow> RationalTime \<Rightarrow> bool" where
  "contains r t = (rt_le (start_time r) t \<and> rt_lt t (end_time_exclusive r))"

definition range_from_start_end_time :: "RationalTime \<Rightarrow> RationalTime \<Rightarrow> TimeRange" where
  "range_from_start_end_time s e = TR s (rt_sub e s)"

definition intersects :: "TimeRange \<Rightarrow> TimeRange \<Rightarrow> bool" where
  \<comment> \<open>Two ranges intersect when the half-open intervals \<open>[start, start + duration)\<close>
      overlap.\<close>
  "intersects a b =
     (rt_lt (start_time a) (end_time_exclusive b) \<and> rt_lt (start_time b) (end_time_exclusive a))"

text \<open>
  A time transform \<^verbatim>\<open>otio::TimeTransform\<close> has an offset, a scale and a rate; the
  default transform is offset \<open>0/1\<close>, scale 1 and rate -1 (no target rate).
\<close>

record TimeTransform =
  tt_offset :: RationalTime
  tt_scale :: rat
  tt_rate :: rat

definition TimeTransform_default :: TimeTransform where
  "TimeTransform_default = \<lparr>tt_offset = RT 0 1, tt_scale = 1, tt_rate = -1\<rparr>"

definition applied_to_transform :: "TimeTransform \<Rightarrow> TimeTransform \<Rightarrow> TimeTransform" where
  "applied_to_transform a other =
     \<lparr>tt_offset = rt_add (tt_offset a) (tt_offset other),
      tt_scale = tt_scale a * tt_scale other,
      tt_rate = (if tt_rate a > 0 then tt_rate a else tt_rate other)\<rparr>"

definition applied_to :: "TimeTransform \<Rightarrow> RationalTime \<Rightarrow> RationalTime" where
  "applied_to a other =
     (let result = rt_add (RT (rvalue other * tt_scale a) (rrate other)) (tt_offset a);
          target_rate = (if tt_rate a > 0 then tt_rate a else rrate other)
      in if target_rate > 0 then rescaled_to result target_rate else result)"

section \<open>The composition\<close>

text \<open>
  The timeline owns one stack; its children are the tracks, and the children of a track
  are clips, gaps and transitions. A clip is identified by its position, the index of
  its track and its index in the track, where the source uses the clip's address.
\<close>

datatype Effect = LinearTimeWarp (time_scalar: rat) | OtherEffect

record Clip =
  media_reference :: string
  trimmed_range :: TimeRange
  effects :: "Effect list"

record OtioTransition =
  transition_type :: string
  in_offset :: RationalTime
  out_offset :: RationalTime

datatype Composable =
    ClipC Clip
  | GapC RationalTime
  | TransitionC OtioTransition

record Track =
  kind :: string
  source_range :: "TimeRange option"
  children :: "Composable list"

fun is_Item :: "Composable \<Rightarrow> bool" where
  "is_Item (TransitionC _) = False"
| "is_Item _ = True"

fun composable_duration :: "Composable \<Rightarrow> RationalTime" where
  "composable_duration (ClipC c) = duration (trimmed_range c)"
| "composable_duration (GapC d) = d"
| "composable_duration (TransitionC t) = rt_add (in_offset t) (out_offset t)"

definition child_at :: "Track \<Rightarrow> nat \<Rightarrow> Composable option" where
  "child_at tr i = (if i < length (children tr) then Some (children tr ! i) else None)"

text \<open>
  \<^verbatim>\<open>Track::range_of_child_at_index\<close>: the start is the sum of the durations of the
  preceding children that are not transitions; a transition starts its in-offset earlier.
\<close>

fun sum_durations :: "RationalTime \<Rightarrow> Composable list \<Rightarrow> RationalTime" where
  "sum_durations acc [] = acc"
| "sum_durations acc (c # cs) =
     sum_durations (if is_Item c then rt_add acc (composable_duration c) else acc) cs"

definition range_of_child_at_index :: "Track \<Rightarrow> nat \<Rightarrow> TimeRange" where
  "range_of_child_at_index tr i =
     (case child_at tr i of
        None \<Rightarrow> TR (RT 0 1) (RT 0 1)
      | Some child \<Rightarrow>
          (let child_duration = composable_duration child;
               st = sum_durations (RT 0 (rrate child_duration)) (take i (children tr));
               st' = (case child of TransitionC t \<Rightarrow> rt_sub st (in_offset t) | _ \<Rightarrow> st)
           in TR st' child_duration))"

text \<open>
  \<^verbatim>\<open>Item::trimmed_range_in_parent\<close>: the range of the child in the track, trimmed to the
  track's source range when it has one; no value when nothing of the child is left.
\<close>

definition rt_max :: "RationalTime \<Rightarrow> RationalTime \<Rightarrow> RationalTime" where
  "rt_max a b = (if rt_lt a b then b else a)"

definition rt_min :: "RationalTime \<Rightarrow> RationalTime \<Rightarrow> RationalTime" where
  "rt_min a b = (if rt_lt b a then b else a)"

definition trimmed_range_in_parent :: "Track \<Rightarrow> nat \<Rightarrow> TimeRange option" where
  "trimmed_range_in_parent tr i =
     (let result_range = range_of_child_at_index tr i in
      case source_range tr of
        None \<Rightarrow> Some result_range
      | Some sr \<Rightarrow>
          (let new_start_time = rt_max (start_time sr) (start_time result_range) in
           if rt_gt new_start_time (end_time_exclusive result_range) then None
           else
             (let new_duration =
                    rt_sub (rt_min (end_time_exclusive result_range) (end_time_exclusive sr))
                      new_start_time
              in if rvalue new_duration < 0 then None
                 else Some (TR new_start_time new_duration))))"

text \<open>\<^verbatim>\<open>Track::neighbors_of\<close> with the default policy: the children before and after.\<close>

definition neighbors_of :: "Track \<Rightarrow> nat \<Rightarrow> Composable option \<times> Composable option" where
  "neighbors_of tr i = ((if i = 0 then None else child_at tr (i - 1)), child_at tr (i + 1))"

text \<open>
  \<^verbatim>\<open>track->transformed_time(time, clip)\<close> moves a time of the track into the clip. The
  library walks from the track up to the stack and from the clip up to the stack: it
  subtracts the start of the track's own range, adds the start of the clip's trimmed
  range, subtracts the start of the clip's range in the track and adds the start of the
  track's own range again. \<^verbatim>\<open>clip->transformed_time_range(range, root)\<close> walks from the
  clip up to the stack and keeps the duration. The track starts at zero in the stack,
  and so does its own range when it has no source range; adding or subtracting such a
  zero is left out.
\<close>

definition transformed_time :: "Track \<Rightarrow> nat \<Rightarrow> Clip \<Rightarrow> RationalTime \<Rightarrow> RationalTime" where
  "transformed_time tr i clip t =
     (case source_range tr of
        None \<Rightarrow>
          rt_sub (rt_add t (start_time (trimmed_range clip)))
            (start_time (range_of_child_at_index tr i))
      | Some sr \<Rightarrow>
          rt_add
            (rt_sub (rt_add (rt_sub t (start_time sr)) (start_time (trimmed_range clip)))
               (start_time (range_of_child_at_index tr i)))
            (start_time sr))"

definition transformed_time_range :: "Track \<Rightarrow> nat \<Rightarrow> Clip \<Rightarrow> TimeRange \<Rightarrow> TimeRange" where
  "transformed_time_range tr i clip r =
     (let in_track = rt_add (rt_sub (start_time r) (start_time (trimmed_range clip)))
                       (start_time (range_of_child_at_index tr i))
      in TR (case source_range tr of None \<Rightarrow> in_track | Some sr \<Rightarrow> rt_sub in_track (start_time sr))
            (duration r))"

section \<open>Frames, requests and readers\<close>

text \<open>
  An image is a shared pointer, possibly null. A \<^verbatim>\<open>std::future\<close> returned by a reader
  either has no shared state (a default-constructed future, \<^verbatim>\<open>valid()\<close> is false) or has
  one; the shared state is ready or not, and holds what \<^verbatim>\<open>get()\<close> will produce once it
  is ready: a value, or a stored exception that \<^verbatim>\<open>get()\<close> rethrows (a broken promise is
  one). A future that never becomes ready is not modelled: \<^verbatim>\<open>get()\<close> on a future that is
  not ready blocks and then produces the outcome.
\<close>

type_synonym Image = "nat option"

datatype 'a Outcome = Value 'a | Exception

datatype VideoFuture = NoState | Future (is_ready: bool) (outcome: "Image Outcome")

fun valid :: "VideoFuture \<Rightarrow> bool" where
  "valid NoState = False"
| "valid (Future _ _) = True"

fun wait_ready :: "VideoFuture \<Rightarrow> bool" where
  "wait_ready NoState = False"
| "wait_ready (Future r _) = r"

datatype Transition = Transition_None | Dissolve

definition toTransition :: "string \<Rightarrow> Transition" where
  "toTransition v = (if ''SMPTE_Dissolve'' = v then Dissolve else Transition_None)"

text \<open>
  The transition value is a \<^verbatim>\<open>float\<close>; \<open>None\<close> stands for the value that is not a finite
  number, which the division produces when its denominator is zero.
\<close>

record FrameLayer =
  fl_image :: Image
  fl_imageB :: Image
  fl_transition :: Transition
  fl_transitionValue :: "rat option"

record Frame =
  time :: RationalTime
  layers :: "FrameLayer list"

definition Frame_default :: Frame where
  \<comment> \<open>Modelled from the spec: the declaration of \<^verbatim>\<open>Frame\<close> in \<^verbatim>\<open>tlrCore/Timeline.h\<close> is not
      among the sources. A default-constructed frame has the invalid time and no
      layers.\<close>
  "Frame_default = \<lparr>time = invalidTime, layers = []\<rparr>"

record LayerData =
  image :: VideoFuture
  imageB :: VideoFuture
  transition :: Transition
  transitionValue :: "rat option"

definition LayerData_default :: LayerData where
  "LayerData_default =
     \<lparr>image = NoState, imageB = NoState, transition = Transition_None,
      transitionValue = Some 0\<rparr>"

text \<open>
  The promise of a request is the index of its shared state in the store
  \<open>frameFutures\<close>, which is what the caller's future observes.
\<close>

record Request =
  req_time :: RationalTime
  videoLayer :: nat
  req_image :: Image
  promise :: nat
  layerData :: "LayerData list"

datatype FrameFuture = Unfulfilled | Fulfilled Frame | BrokenPromise

datatype IRead = IRead (path: string)

record Info =
  video :: "nat list"
  videoTimeRange :: TimeRange

record Reader =
  read :: IRead
  info :: Info

type_synonym ClipKey = "nat \<times> nat"

text \<open>
  The I/O system and the readers are the environment: \<open>io_read\<close> is \<^verbatim>\<open>System::read\<close>
  followed by \<^verbatim>\<open>getInfo().get()\<close>, which throws, returns no reader, or returns a reader
  and its information; \<open>video_future\<close> is the future that the reader of a clip returns
  for a read; \<open>hasVideoFrames\<close> and \<open>hasStopped\<close> are what a reader answers when the
  timeline asks it.
\<close>

datatype OpenResult = ReadThrows | ReadNull | ReadOk IRead Info

record IOSystem =
  io_read :: "string \<Rightarrow> OpenResult"
  video_future :: "ClipKey \<Rightarrow> RationalTime \<Rightarrow> nat \<Rightarrow> VideoFuture"
  hasVideoFrames :: "ClipKey \<Rightarrow> bool"
  hasStopped :: "IRead \<Rightarrow> bool"

text \<open>The calls that the timeline makes on its readers, in the order they are made.\<close>

datatype Event =
    EvReadVideoFrame ClipKey RationalTime nat Image
  | EvCancelVideoFrames ClipKey
  | EvStop ClipKey
  | EvDelete IRead

record Private =
  p_context :: bool
  otioTimeline :: "Track list"
  p_duration :: RationalTime
  globalStartTime :: RationalTime
  activeRanges :: "TimeRange list"
  requests :: "Request list"
  requestsInProgress :: "Request list"
  requestCount :: nat
  readers :: "(ClipKey \<times> Reader) list"
  stoppedReaders :: "IRead list"
  stopped :: bool
  running :: bool
  frameFutures :: "nat \<Rightarrow> FrameFuture option"
  nextPromise :: nat
  events :: "Event list"

text \<open>The state after \<^verbatim>\<open>Timeline::_init\<close>: the member initialisers and a running thread.\<close>

definition Private_init :: "Track list \<Rightarrow> RationalTime \<Rightarrow> RationalTime \<Rightarrow> Private" where
  "Private_init tracks dur gst =
     \<lparr>p_context = True, otioTimeline = tracks, p_duration = dur, globalStartTime = gst,
      activeRanges = [], requests = [], requestsInProgress = [], requestCount = 16,
      readers = [], stoppedReaders = [], stopped = False, running = True,
      frameFutures = Map.empty, nextPromise = 0, events = []\<rparr>"

section \<open>The facade\<close>

text \<open>
  \<^verbatim>\<open>Timeline::getFrame\<close> returns the future of a new promise. The request is queued when
  the thread has not stopped; otherwise the promise is set at once to a default frame.
\<close>

definition getFrame :: "RationalTime \<Rightarrow> nat \<Rightarrow> Image \<Rightarrow> Private \<Rightarrow> nat \<times> Private" where
  "getFrame t vl img p =
     (let request = \<lparr>req_time = t, videoLayer = vl, req_image = img,
                     promise = nextPromise p, layerData = []\<rparr>;
          future = nextPromise p;
          p1 = p\<lparr>frameFutures := (frameFutures p)(future \<mapsto> Unfulfilled),
                 nextPromise := nextPromise p + 1\<rparr>
      in if \<not> stopped p1
         then (future, p1\<lparr>requests := requests p1 @ [request]\<rparr>)
         else (future, p1\<lparr>frameFutures := (frameFutures p1)(promise request \<mapsto> Fulfilled Frame_default)\<rparr>))"

definition setActiveRanges :: "TimeRange list \<Rightarrow> Private \<Rightarrow> Private" where
  "setActiveRanges ranges p = p\<lparr>activeRanges := ranges\<rparr>"

definition setRequestCount :: "nat \<Rightarrow> Private \<Rightarrow> Private" where
  "setRequestCount n p = p\<lparr>requestCount := n\<rparr>"

text \<open>
  Destroying a request destroys its promise: a shared state that has not been made ready
  receives the broken-promise exception.
\<close>

definition destroy_promise :: "(nat \<Rightarrow> FrameFuture option) \<Rightarrow> nat \<Rightarrow> (nat \<Rightarrow> FrameFuture option)" where
  "destroy_promise fs i = (case fs i of Some Unfulfilled \<Rightarrow> fs(i \<mapsto> BrokenPromise) | _ \<Rightarrow> fs)"

fun destroy_requests :: "Request list \<Rightarrow> (nat \<Rightarrow> FrameFuture option) \<Rightarrow> (nat \<Rightarrow> FrameFuture option)" where
  "destroy_requests [] fs = fs"
| "destroy_requests (r # rs) fs = destroy_requests rs (destroy_promise fs (promise r))"

text \<open>
  \<^verbatim>\<open>Timeline::cancelFrames\<close>: \<^verbatim>\<open>requests.clear()\<close> destroys the pending requests, then every
  reader in the map is asked to cancel its video frames.
\<close>

definition cancelFrames :: "Private \<Rightarrow> Private" where
  "cancelFrames p =
     p\<lparr>frameFutures := destroy_requests (requests p) (frameFutures p),
       requests := [],
       events := events p @ map (\<lambda>kr. EvCancelVideoFrames (fst kr)) (readers p)\<rparr>"

section \<open>Reading a video frame of a clip\<close>

text \<open>
  \<^verbatim>\<open>Timeline::Private::readVideoFrame\<close>. The loop over the effects of the clip builds the
  time transform; only linear time warps contribute.
\<close>

fun clip_timeTransform :: "TimeTransform \<Rightarrow> Effect list \<Rightarrow> TimeTransform" where
  "clip_timeTransform timeTransform [] = timeTransform"
| "clip_timeTransform timeTransform (LinearTimeWarp sc # es) =
     clip_timeTransform
       (applied_to_transform \<lparr>tt_offset = RT 0 1, tt_scale = sc, tt_rate = -1\<rparr> timeTransform) es"
| "clip_timeTransform timeTransform (OtherEffect # es) = clip_timeTransform timeTransform es"

definition clip_startTime :: "Track \<Rightarrow> nat \<Rightarrow> Clip \<Rightarrow> RationalTime" where
  "clip_startTime tr ci clip =
     (let startTime = start_time (trimmed_range clip) in
      case fst (neighbors_of tr ci) of
        Some (TransitionC t) \<Rightarrow> rt_sub startTime (in_offset t)
      | _ \<Rightarrow> startTime)"

definition frameTime :: "Track \<Rightarrow> nat \<Rightarrow> Clip \<Rightarrow> RationalTime \<Rightarrow> RationalTime" where
  "frameTime tr ci clip t =
     (let timeTransform = clip_timeTransform TimeTransform_default (effects clip);
          startTime = clip_startTime tr ci clip;
          clipTime = transformed_time tr ci clip t
      in rt_add startTime (applied_to timeTransform (rt_sub clipTime startTime)))"

definition floorTime :: "RationalTime \<Rightarrow> Info \<Rightarrow> RationalTime" where
  "floorTime ft nfo =
     (let readTime = rescaled_to ft (rrate (duration (videoTimeRange nfo)))
      in RT (of_int \<lfloor>rvalue readTime\<rfloor>) (rrate readTime))"

text \<open>
  The result is \<open>None\<close> when the I/O system throws, which happens before the state is
  touched; otherwise the state after the call and the returned future. The media
  reference of the clip stands for the path that \<^verbatim>\<open>getPath\<close> makes of it.
\<close>

definition readVideoFrame ::
  "IOSystem \<Rightarrow> Private \<Rightarrow> nat \<Rightarrow> Track \<Rightarrow> nat \<Rightarrow> Clip \<Rightarrow> RationalTime \<Rightarrow> nat \<Rightarrow> Image
     \<Rightarrow> (Private \<times> VideoFuture) option" where
  "readVideoFrame io p ti tr ci clip t vl img =
     (if \<not> p_context p then Some (p, NoState)
      else
        (let ft = frameTime tr ci clip t in
         case map_of (readers p) (ti, ci) of
           Some j \<Rightarrow>
             (let fl = floorTime ft (info j) in
              Some (p\<lparr>events := events p @ [EvReadVideoFrame (ti, ci) fl vl img]\<rparr>,
                    video_future io (ti, ci) fl vl))
         | None \<Rightarrow>
             (case io_read io (media_reference clip) of
                ReadThrows \<Rightarrow> None
              | ReadNull \<Rightarrow> Some (p, NoState)
              | ReadOk rd nfo \<Rightarrow>
                  if video nfo = [] then Some (p, NoState)
                  else
                    (let fl = floorTime ft nfo in
                     Some (p\<lparr>events := events p @ [EvReadVideoFrame (ti, ci) fl vl img],
                             readers := readers p @ [((ti, ci), \<lparr>read = rd, info = nfo\<rparr>)]\<rparr>,
                           video_future io (ti, ci) fl vl)))))"

section \<open>The layers of a request\<close>

definition transitionValue_of :: "rat \<Rightarrow> rat \<Rightarrow> rat \<Rightarrow> rat option" where
  \<comment> \<open>\<^verbatim>\<open>Timeline::Private::transitionValue\<close>\<close>
  "transitionValue_of frame inp out =
     (if out - inp = 0 then None else Some ((frame - inp) / (out - inp)))"

text \<open>
  The body of the innermost loop of \<^verbatim>\<open>frameRequests\<close> for one item whose range contains
  the time, in its three parts: the read of the clip itself, the transition to the right
  and the transition to the left. Each part returns \<open>None\<close> when a read throws.
\<close>

definition clip_part ::
  "IOSystem \<Rightarrow> nat \<Rightarrow> Track \<Rightarrow> nat \<Rightarrow> RationalTime \<Rightarrow> nat \<Rightarrow> Image \<Rightarrow> Private \<times> LayerData
     \<Rightarrow> (Private \<times> LayerData) option" where
  "clip_part io ti tr ci t vl img pd =
     (case child_at tr ci of
        Some (ClipC otioClip) \<Rightarrow>
          (case readVideoFrame io (fst pd) ti tr ci otioClip t vl img of
             None \<Rightarrow> None
           | Some (p', f) \<Rightarrow> Some (p', (snd pd)\<lparr>image := f\<rparr>))
      | _ \<Rightarrow> Some pd)"

definition right_part ::
  "IOSystem \<Rightarrow> nat \<Rightarrow> Track \<Rightarrow> nat \<Rightarrow> TimeRange \<Rightarrow> RationalTime \<Rightarrow> nat \<Rightarrow> Private \<times> LayerData
     \<Rightarrow> (Private \<times> LayerData) option" where
  "right_part io ti tr ci rng t vl pd =
     (case snd (neighbors_of tr ci) of
        Some (TransitionC otioTransition) \<Rightarrow>
          if rt_gt t (rt_sub (end_time_inclusive rng) (in_offset otioTransition))
          then
            (let data = (snd pd)
                   \<lparr>transition := toTransition (transition_type otioTransition),
                    transitionValue := transitionValue_of (rvalue t)
                      (rvalue (end_time_inclusive rng) - rvalue (in_offset otioTransition))
                      (rvalue (end_time_inclusive rng) + rvalue (out_offset otioTransition) + 1)\<rparr>
             in case snd (neighbors_of tr (ci + 1)) of
                  Some (ClipC otioClipB) \<Rightarrow>
                    (case readVideoFrame io (fst pd) ti tr (ci + 2) otioClipB t vl None of
                       None \<Rightarrow> None
                     | Some (p', f) \<Rightarrow> Some (p', data\<lparr>imageB := f\<rparr>))
                | _ \<Rightarrow> Some (fst pd, data))
          else Some pd
      | _ \<Rightarrow> Some pd)"

definition left_part ::
  "IOSystem \<Rightarrow> nat \<Rightarrow> Track \<Rightarrow> nat \<Rightarrow> TimeRange \<Rightarrow> RationalTime \<Rightarrow> nat \<Rightarrow> Private \<times> LayerData
     \<Rightarrow> (Private \<times> LayerData) option" where
  "left_part io ti tr ci rng t vl pd =
     (case fst (neighbors_of tr ci) of
        Some (TransitionC otioTransition) \<Rightarrow>
          if rt_lt t (rt_add (start_time rng) (out_offset otioTransition))
          then
            (let data = (snd pd)
                   \<lparr>image := imageB (snd pd), imageB := image (snd pd),
                    transition := toTransition (transition_type otioTransition),
                    transitionValue := transitionValue_of (rvalue t)
                      (rvalue (start_time rng) - rvalue (in_offset otioTransition) - 1)
                      (rvalue (start_time rng) + rvalue (out_offset otioTransition))\<rparr>
             in case fst (neighbors_of tr (ci - 1)) of
                  Some (ClipC otioClipB) \<Rightarrow>
                    (case readVideoFrame io (fst pd) ti tr (ci - 2) otioClipB t vl None of
                       None \<Rightarrow> None
                     | Some (p', f) \<Rightarrow> Some (p', data\<lparr>image := f\<rparr>))
                | _ \<Rightarrow> Some (fst pd, data))
          else Some pd
      | _ \<Rightarrow> Some pd)"

text \<open>
  The outcome of one child of a track: the child is skipped (it is not an item, it has
  no range or the range does not contain the time), a layer is produced, or a read has
  thrown.
\<close>

datatype ItemResult = Skipped | Produced LayerData | Thrown

definition item_layer ::
  "IOSystem \<Rightarrow> Private \<Rightarrow> nat \<Rightarrow> Track \<Rightarrow> nat \<Rightarrow> RationalTime \<Rightarrow> nat \<Rightarrow> Image
     \<Rightarrow> Private \<times> ItemResult" where
  "item_layer io p ti tr ci t vl img =
     (case child_at tr ci of
        None \<Rightarrow> (p, Skipped)
      | Some k \<Rightarrow>
          if \<not> is_Item k then (p, Skipped)
          else
            (case trimmed_range_in_parent tr ci of
               None \<Rightarrow> (p, Skipped)
             | Some rng \<Rightarrow>
                 if \<not> contains rng t then (p, Skipped)
                 else
                   (case clip_part io ti tr ci t vl img (p, LayerData_default) of
                      None \<Rightarrow> (p, Thrown)
                    | Some pd1 \<Rightarrow>
                        (case right_part io ti tr ci rng t vl pd1 of
                           None \<Rightarrow> (fst pd1, Thrown)
                         | Some pd2 \<Rightarrow>
                             (case left_part io ti tr ci rng t vl pd2 of
                                None \<Rightarrow> (fst pd2, Thrown)
                              | Some pd3 \<Rightarrow> (fst pd3, Produced (snd pd3)))))))"

text \<open>
  The loops over the children of a track and over the tracks. The flag of the result
  tells whether an exception has left the loops; the layers pushed before it stay.
\<close>

fun children_loop ::
  "IOSystem \<Rightarrow> nat \<Rightarrow> Track \<Rightarrow> RationalTime \<Rightarrow> nat \<Rightarrow> Image \<Rightarrow> nat list
     \<Rightarrow> Private \<times> LayerData list \<Rightarrow> (Private \<times> LayerData list) \<times> bool" where
  "children_loop io ti tr t vl img [] pl = (pl, False)"
| "children_loop io ti tr t vl img (ci # rest) pl =
     (case item_layer io (fst pl) ti tr ci t vl img of
        (p', Thrown) \<Rightarrow> ((p', snd pl), True)
      | (p', Skipped) \<Rightarrow> children_loop io ti tr t vl img rest (p', snd pl)
      | (p', Produced d) \<Rightarrow> children_loop io ti tr t vl img rest (p', snd pl @ [d]))"

fun tracks_loop ::
  "IOSystem \<Rightarrow> RationalTime \<Rightarrow> nat \<Rightarrow> Image \<Rightarrow> (nat \<times> Track) list
     \<Rightarrow> Private \<times> LayerData list \<Rightarrow> (Private \<times> LayerData list) \<times> bool" where
  "tracks_loop io t vl img [] pl = (pl, False)"
| "tracks_loop io t vl img ((ti, otioTrack) # js) pl =
     (if kind otioTrack = ''Video''
      then
        (case children_loop io ti otioTrack t vl img [0..<length (children otioTrack)] pl of
           (pl', True) \<Rightarrow> (pl', True)
         | (pl', False) \<Rightarrow> tracks_loop io t vl img js pl')
      else tracks_loop io t vl img js pl)"

text \<open>
  The traversal for one new request, inside \<^verbatim>\<open>try\<close>: whatever the loops did before an
  exception stays, and the request goes to the requests in progress in both cases.
\<close>

definition traverse :: "IOSystem \<Rightarrow> Private \<Rightarrow> Request \<Rightarrow> Private" where
  "traverse io p request =
     (let t = rt_sub (req_time request) (globalStartTime p);
          res = tracks_loop io t (videoLayer request) (req_image request)
                  (zip [0..<length (otioTimeline p)] (otioTimeline p)) (p, layerData request);
          p' = fst (fst res);
          request' = request\<lparr>layerData := snd (fst res)\<rparr>
      in p'\<lparr>requestsInProgress := requestsInProgress p' @ [request']\<rparr>)"

fun traverse_all :: "IOSystem \<Rightarrow> Request list \<Rightarrow> Private \<Rightarrow> Private" where
  "traverse_all io [] p = p"
| "traverse_all io (request # rs) p = traverse_all io rs (traverse io p request)"

section \<open>The scheduler\<close>

text \<open>
  The first loop of \<^verbatim>\<open>frameRequests\<close> moves requests from the front of the pending list
  to the new requests while the requests in progress and the new ones together are
  fewer than the request count. The wait on the condition variable before it changes
  nothing in the state.
\<close>

fun gather :: "nat \<Rightarrow> nat \<Rightarrow> Request list \<Rightarrow> Request list \<Rightarrow> Request list \<times> Request list" where
  "gather count inProgress newRequests [] = (newRequests, [])"
| "gather count inProgress newRequests (r # rs) =
     (if inProgress + length newRequests < count
      then gather count inProgress (newRequests @ [r]) rs
      else (newRequests, r # rs))"

text \<open>The check of one request in progress: every valid future must be ready.\<close>

fun layers_valid :: "bool \<Rightarrow> LayerData list \<Rightarrow> bool" where
  "layers_valid v [] = v"
| "layers_valid v (i # is) =
     (let v1 = (if valid (image i) then v \<and> wait_ready (image i) else v);
          v2 = (if valid (imageB i) then v1 \<and> wait_ready (imageB i) else v1)
      in layers_valid v2 is)"

text \<open>
  \<^verbatim>\<open>get()\<close> of the futures of one layer: the frame layer, or the exception of the first
  future that holds one.
\<close>

definition get_layer :: "LayerData \<Rightarrow> FrameLayer Outcome" where
  "get_layer j =
     (case (if valid (image j) then outcome (image j) else Value None) of
        Exception \<Rightarrow> Exception
      | Value a \<Rightarrow>
          (case (if valid (imageB j) then outcome (imageB j) else Value None) of
             Exception \<Rightarrow> Exception
           | Value b \<Rightarrow>
               Value \<lparr>fl_image = a, fl_imageB = b, fl_transition = transition j,
                      fl_transitionValue = transitionValue j\<rparr>))"

text \<open>
  In the tick the collection of the layers is inside \<^verbatim>\<open>try\<close>: an exception ends the
  loop and the frame keeps the layers pushed so far.
\<close>

fun collect_layers :: "LayerData list \<Rightarrow> FrameLayer list \<Rightarrow> FrameLayer list" where
  "collect_layers [] acc = acc"
| "collect_layers (j # js) acc =
     (case get_layer j of
        Exception \<Rightarrow> acc
      | Value layer \<Rightarrow> collect_layers js (acc @ [layer]))"

fun finish_requests ::
  "Request list \<Rightarrow> (nat \<Rightarrow> FrameFuture option) \<Rightarrow> Request list \<times> (nat \<Rightarrow> FrameFuture option)" where
  "finish_requests [] fs = ([], fs)"
| "finish_requests (r # rs) fs =
     (if layers_valid True (layerData r)
      then finish_requests rs
             (fs(promise r \<mapsto> Fulfilled \<lparr>time = req_time r, layers = collect_layers (layerData r) []\<rparr>))
      else (let res = finish_requests rs fs in (r # fst res, snd res)))"

definition frameRequests :: "IOSystem \<Rightarrow> Private \<Rightarrow> Private" where
  "frameRequests io p =
     (let g = gather (requestCount p) (length (requestsInProgress p)) [] (requests p);
          p1 = traverse_all io (fst g) (p\<lparr>requests := snd g\<rparr>);
          res = finish_requests (requestsInProgress p1) (frameFutures p1)
      in p1\<lparr>requestsInProgress := fst res, frameFutures := snd res\<rparr>)"

text \<open>
  \<^verbatim>\<open>Timeline::Private::stopReaders\<close>. The range of a reader is computed from its clip; the
  flag \<open>del\<close> is cleared by the first active range that intersects it.
\<close>

definition reader_range :: "Private \<Rightarrow> ClipKey \<Rightarrow> TimeRange option" where
  "reader_range p key =
     (if fst key < length (otioTimeline p) then
        (let track = otioTimeline p ! fst key in
         case child_at track (snd key) of
           Some (ClipC clip) \<Rightarrow>
             (let trimmedRange = trimmed_range clip;
                  clipRange = transformed_time_range track (snd key) clip trimmedRange;
                  startTime = start_time clipRange;
                  endTime = rt_add startTime (duration clipRange);
                  neighbors = neighbors_of track (snd key);
                  startTime' = (case fst neighbors of
                                  Some (TransitionC t) \<Rightarrow> rt_sub startTime (in_offset t)
                                | _ \<Rightarrow> startTime);
                  endTime' = (case snd neighbors of
                                Some (TransitionC t) \<Rightarrow> rt_add endTime (out_offset t)
                              | _ \<Rightarrow> endTime)
              in Some (range_from_start_end_time
                         (rt_add (globalStartTime p) startTime')
                         (rt_add (globalStartTime p) endTime')))
         | _ \<Rightarrow> None)
      else None)"

fun del_flag :: "TimeRange \<Rightarrow> TimeRange list \<Rightarrow> bool" where
  "del_flag rng [] = True"
| "del_flag rng (activeRange # rs) = (if intersects rng activeRange then False else del_flag rng rs)"

text \<open>
  A key of the reader map is the position of a clip of the timeline, so its range
  exists; an entry without one is left alone.
\<close>

definition reader_del :: "IOSystem \<Rightarrow> Private \<Rightarrow> ClipKey \<times> Reader \<Rightarrow> bool" where
  "reader_del io p kr =
     (case reader_range p (fst kr) of
        None \<Rightarrow> False
      | Some rng \<Rightarrow> del_flag rng (activeRanges p) \<and> \<not> hasVideoFrames io (fst kr))"

fun stopReaders_loop ::
  "IOSystem \<Rightarrow> Private \<Rightarrow> (ClipKey \<times> Reader) list
     \<Rightarrow> (ClipKey \<times> Reader) list \<times> IRead list \<times> Event list
     \<Rightarrow> (ClipKey \<times> Reader) list \<times> IRead list \<times> Event list" where
  "stopReaders_loop io p [] acc = acc"
| "stopReaders_loop io p (i # is) (kept, stoppedR, evs) =
     (if reader_del io p i
      then stopReaders_loop io p is (kept, stoppedR @ [read (snd i)], evs @ [EvStop (fst i)])
      else stopReaders_loop io p is (kept @ [i], stoppedR, evs))"

definition stopReaders :: "IOSystem \<Rightarrow> Private \<Rightarrow> Private" where
  "stopReaders io p =
     (case stopReaders_loop io p (readers p) ([], stoppedReaders p, events p) of
        (kept, stoppedR, evs) \<Rightarrow> p\<lparr>readers := kept, stoppedReaders := stoppedR, events := evs\<rparr>)"

fun delReaders_loop ::
  "IOSystem \<Rightarrow> IRead list \<Rightarrow> IRead list \<times> Event list \<Rightarrow> IRead list \<times> Event list" where
  "delReaders_loop io [] acc = acc"
| "delReaders_loop io (i # is) (kept, evs) =
     (if hasStopped io i then delReaders_loop io is (kept, evs @ [EvDelete i])
      else delReaders_loop io is (kept @ [i], evs))"

definition delReaders :: "IOSystem \<Rightarrow> Private \<Rightarrow> Private" where
  "delReaders io p =
     (case delReaders_loop io (stoppedReaders p) ([], events p) of
        (kept, evs) \<Rightarrow> p\<lparr>stoppedReaders := kept, events := evs\<rparr>)"

text \<open>\<^verbatim>\<open>Timeline::Private::tick\<close>; the log line every ten seconds is left out.\<close>

definition tick :: "IOSystem \<Rightarrow> Private \<Rightarrow> Private" where
  "tick io p = delReaders io (stopReaders io (frameRequests io p))"

section \<open>The end of the thread and the destructor\<close>

text \<open>
  After its loop the thread sets \<open>stopped\<close>, takes the pending requests and the requests
  in progress, and sets the promise of each. Here \<^verbatim>\<open>get()\<close> is not inside \<^verbatim>\<open>try\<close>: an
  exception leaves the thread function and the program is terminated.
\<close>

fun assemble_layers :: "LayerData list \<Rightarrow> FrameLayer list \<Rightarrow> FrameLayer list option" where
  "assemble_layers [] acc = Some acc"
| "assemble_layers (i # is) acc =
     (case get_layer i of
        Exception \<Rightarrow> None
      | Value layer \<Rightarrow> assemble_layers is (acc @ [layer]))"

fun cleanup_requests ::
  "Request list \<Rightarrow> (nat \<Rightarrow> FrameFuture option) \<Rightarrow> (nat \<Rightarrow> FrameFuture option) option" where
  "cleanup_requests [] fs = Some fs"
| "cleanup_requests (request # rs) fs =
     (case assemble_layers (layerData request) [] of
        None \<Rightarrow> None
      | Some ls \<Rightarrow>
          cleanup_requests rs (fs(promise request \<mapsto> Fulfilled \<lparr>time = req_time request, layers = ls\<rparr>)))"

datatype Terminated = Terminated

definition thread_exit :: "Private \<Rightarrow> Terminated + Private" where
  "thread_exit p =
     (let requestsCleanup = requests p @ requestsInProgress p;
          p1 = p\<lparr>stopped := True, requests := [], requestsInProgress := []\<rparr>
      in case cleanup_requests requestsCleanup (frameFutures p1) of
           None \<Rightarrow> Inl Terminated
         | Some fs \<Rightarrow> Inr (p1\<lparr>frameFutures := fs\<rparr>))"

text \<open>
  \<^verbatim>\<open>Timeline::~Timeline\<close> clears \<open>running\<close> and joins the thread. The thread completes the
  tick it is in, if it is in one, before it sees the flag: \<open>n\<close> is the number of ticks
  that it still runs, and the destructor returns the state that the thread leaves.
\<close>

definition Timeline_destroy :: "IOSystem \<Rightarrow> nat \<Rightarrow> Private \<Rightarrow> Terminated + Private" where
  "Timeline_destroy io n p = thread_exit (((tick io) ^^ n) (p\<lparr>running := False\<rparr>))"

section \<open>Auxiliary notions and example inputs\<close>

text \<open>
  The part of the state that the reads of the traversal leave alone: everything but the
  reader map and the record of the calls.
\<close>

definition scheduling :: "Private \<Rightarrow> Private" where
  "scheduling p = p\<lparr>events := [], readers := []\<rparr>"

definition only_readers_events :: "Private \<Rightarrow> Private \<Rightarrow> bool" where
  "only_readers_events p p' = (scheduling p' = scheduling p)"

text \<open>
  A track of two clips of 48 frames at rate 24 joined by a dissolve that reaches six
  frames into each, an I/O system whose readers answer every read with a future of the
  given readiness and outcome and report pending video frames when it is not ready, and
  the timeline made of that track.
\<close>

definition ex_clip :: "string \<Rightarrow> rat \<Rightarrow> Clip" where
  "ex_clip name n =
     \<lparr>media_reference = name, trimmed_range = TR (RT 0 24) (RT n 24), effects = []\<rparr>"

definition ex_dissolve :: "rat \<Rightarrow> rat \<Rightarrow> OtioTransition" where
  "ex_dissolve a b =
     \<lparr>transition_type = ''SMPTE_Dissolve'', in_offset = RT a 24, out_offset = RT b 24\<rparr>"

definition ex_track :: Track where
  "ex_track =
     \<lparr>kind = ''Video'', source_range = None,
      children = [ClipC (ex_clip ''A'' 48), TransitionC (ex_dissolve 6 6), ClipC (ex_clip ''B'' 48)]\<rparr>"

definition ex_io :: "bool \<Rightarrow> Image Outcome \<Rightarrow> IOSystem" where
  "ex_io rdy out =
     \<lparr>io_read = (\<lambda>name. ReadOk (IRead name)
                            \<lparr>video = [1], videoTimeRange = TR (RT 0 24) (RT 48 24)\<rparr>),
      video_future = (\<lambda>key t vl. Future rdy out),
      hasVideoFrames = (\<lambda>key. \<not> rdy),
      hasStopped = (\<lambda>r. False)\<rparr>"

definition ex_init :: Private where
  "ex_init = Private_init [ex_track] (RT 96 24) (RT 0 24)"

text \<open>
  What the callers and the readers can do between the ticks of the thread: submit a
  request, cancel, replace the active ranges, and (the readers) make the futures of the
  requests in progress ready. A run applies a list of such actions and ticks in order.
\<close>

fun make_ready :: "VideoFuture \<Rightarrow> VideoFuture" where
  "make_ready NoState = NoState"
| "make_ready (Future _ out) = Future True out"

definition readers_finish :: "Private \<Rightarrow> Private" where
  "readers_finish p =
     p\<lparr>requestsInProgress :=
         map (\<lambda>r. r\<lparr>layerData :=
                map (\<lambda>d. d\<lparr>image := make_ready (image d), imageB := make_ready (imageB d)\<rparr>)
                  (layerData r)\<rparr>)
           (requestsInProgress p)\<rparr>"

datatype Action =
    AGetFrame RationalTime nat Image
  | ATick IOSystem
  | ACancelFrames
  | ASetActiveRanges "TimeRange list"
  | AReadersFinish

fun act :: "Action \<Rightarrow> Private \<Rightarrow> Private" where
  "act (AGetFrame t vl img) p = snd (getFrame t vl img p)"
| "act (ATick io) p = tick io p"
| "act ACancelFrames p = cancelFrames p"
| "act (ASetActiveRanges ranges) p = setActiveRanges ranges p"
| "act AReadersFinish p = readers_finish p"

fun run :: "Action list \<Rightarrow> Private \<Rightarrow> Private" where
  "run [] p = p"
| "run (a # as) p = run as (act a p)"

text \<open>The request as the traversal leaves it in the list of the requests in progress.\<close>

definition traversed :: "IOSystem \<Rightarrow> Private \<Rightarrow> Request \<Rightarrow> Request" where
  "traversed io p request =
     request\<lparr>layerData := snd (fst (tracks_loop io
        (rt_sub (req_time request) (globalStartTime p)) (videoLayer request) (req_image request)
        (zip [0..<length (otioTimeline p)] (otioTimeline p)) (p, layerData request)))\<rparr>"

text \<open>A hundred requests submitted back to back, then one tick.\<close>

definition ex_burst :: "Action list" where
  "ex_burst = replicate 100 (AGetFrame (RT 10 24) 0 None) @ [ATick (ex_io False (Value None))]"

text \<open>
  The words of the specification for the completion of a request: every valid future of
  every layer, primary and secondary, polls as ready. A layer holds values when none of
  its futures holds an exception; its frame layer then has the images of its valid
  futures and a null image for a future without state.
\<close>

definition all_futures_ready :: "LayerData list \<Rightarrow> bool" where
  "all_futures_ready ls =
     list_all (\<lambda>d. (valid (image d) \<longrightarrow> wait_ready (image d)) \<and>
                   (valid (imageB d) \<longrightarrow> wait_ready (imageB d))) ls"

fun image_of :: "VideoFuture \<Rightarrow> Image" where
  "image_of NoState = None"
| "image_of (Future _ (Value i)) = i"
| "image_of (Future _ Exception) = None"

fun throws :: "VideoFuture \<Rightarrow> bool" where
  "throws (Future _ Exception) = True"
| "throws _ = False"

definition holds_values :: "LayerData \<Rightarrow> bool" where
  "holds_values d = (\<not> throws (image d) \<and> \<not> throws (imageB d))"

definition frame_layer :: "LayerData \<Rightarrow> FrameLayer" where
  "frame_layer d =
     \<lparr>fl_image = image_of (image d), fl_imageB = image_of (imageB d),
      fl_transition = transition d, fl_transitionValue = transitionValue d\<rparr>"

text \<open>
  The state of a tick after its first two steps, when the new requests have been taken
  and their reads issued, before the requests in progress are checked.
\<close>

definition dispatch :: "IOSystem \<Rightarrow> Private \<Rightarrow> Private" where
  "dispatch io p =
     (let g = gather (requestCount p) (length (requestsInProgress p)) [] (requests p)
      in traverse_all io (fst g) (p\<lparr>requests := snd g\<rparr>))"

text \<open>
  Three video tracks of one clip each, with readers whose futures are ready: the reader
  of the second track answers with a stored exception, the others with an image. And
  the request that a tick of the two-clip timeline has in progress for the time 45/24.
\<close>

definition ex_three :: Private where
  "ex_three =
     Private_init
       [\<lparr>kind = ''Video'', source_range = None, children = [ClipC (ex_clip ''A'' 48)]\<rparr>,
        \<lparr>kind = ''Video'', source_range = None, children = [ClipC (ex_clip ''B'' 48)]\<rparr>,
        \<lparr>kind = ''Video'', source_range = None, children = [ClipC (ex_clip ''C'' 48)]\<rparr>]
       (RT 48 24) (RT 0 24)"

definition ex_io_three :: IOSystem where
  "ex_io_three =
     \<lparr>io_read = (\<lambda>name. ReadOk (IRead name)
                            \<lparr>video = [1], videoTimeRange = TR (RT 0 24) (RT 48 24)\<rparr>),
      video_future = (\<lambda>key t vl. if fst key = 1 then Future True Exception
                                  else Future True (Value (Some (fst key + 5)))),
      hasVideoFrames = (\<lambda>key. False),
      hasStopped = (\<lambda>r. False)\<rparr>"

definition ex_request :: Request where
  "ex_request =
     \<lparr>req_time = RT 45 24, videoLayer = 0, req_image = None, promise = 0,
      layerData = [\<lparr>image = Future True (Value (Some 1)), imageB = Future True (Value (Some 1)),
                    transition = Dissolve, transitionValue = Some (4 / 13)\<rparr>]\<rparr>"

text \<open>
  The reads are the calls \<^verbatim>\<open>readVideoFrame\<close> on a reader. A state continues another with
  reads when its record of calls is the other's followed by reads only.
\<close>

fun is_dispatch :: "Event \<Rightarrow> bool" where
  "is_dispatch (EvReadVideoFrame _ _ _ _) = True"
| "is_dispatch _ = False"

definition reads_appended :: "Private \<Rightarrow> Private \<Rightarrow> bool" where
  "reads_appended p p' =
     (take (length (events p)) (events p') = events p \<and>
      list_all is_dispatch (drop (length (events p)) (events p')))"

text \<open>
  A timeline with the reader of the first clip open and a request pending for the time
  60/24 in the second clip, and an I/O system in which only the reader of the second
  clip reports pending video frames and every reader that was stopped has stopped. The
  reader entry that the example I/O system makes for a path. The timeline with both
  readers open and one active range, the ten frames from 60/24.
\<close>

definition ex_io_evict :: IOSystem where
  "ex_io_evict =
     \<lparr>io_read = (\<lambda>name. ReadOk (IRead name)
                            \<lparr>video = [1], videoTimeRange = TR (RT 0 24) (RT 48 24)\<rparr>),
      video_future = (\<lambda>key t vl. Future False (Value (Some 1))),
      hasVideoFrames = (\<lambda>key. key = (0, 2)),
      hasStopped = (\<lambda>r. True)\<rparr>"

definition ex_open :: Private where
  "ex_open = run [AGetFrame (RT 10 24) 0 None, ATick (ex_io False (Value (Some 1))),
                  AGetFrame (RT 60 24) 0 None] ex_init"










text \<open>
  Readers whose future holds the index of the clip in its track as the image, so that
  the images of a layer tell which clips were read. A track in which a clip of ten
  frames has a dissolve of six frames on each side.
\<close>

definition ex_io_keyed :: IOSystem where
  "ex_io_keyed =
     \<lparr>io_read = (\<lambda>name. ReadOk (IRead name)
                            \<lparr>video = [1], videoTimeRange = TR (RT 0 24) (RT 48 24)\<rparr>),
      video_future = (\<lambda>key t vl. Future False (Value (Some (snd key)))),
      hasVideoFrames = (\<lambda>key. True),
      hasStopped = (\<lambda>r. False)\<rparr>"

definition ex_short :: Track where
  "ex_short =
     \<lparr>kind = ''Video'', source_range = None,
      children = [ClipC (ex_clip ''A'' 48), TransitionC (ex_dissolve 6 6),
                  ClipC (ex_clip ''B'' 10), TransitionC (ex_dissolve 6 6),
                  ClipC (ex_clip ''C'' 48)]\<rparr>"

definition ex_short_init :: Private where
  "ex_short_init = Private_init [ex_short] (RT 106 24) (RT 0 24)"



text \<open>
  The promises of the pending requests and of the requests in progress are distinct and
  were all made before the next promise.
\<close>

definition promises_fresh :: "Private \<Rightarrow> bool" where
  "promises_fresh p =
     (distinct (map promise (requests p @ requestsInProgress p)) \<and>
      list_all (\<lambda>r. promise r < nextPromise p) (requests p @ requestsInProgress p))"

text \<open>
  The values by which \<open>stopReaders\<close> extends the range of a clip: the in-offset of a
  transition to the left and the out-offset of a transition to the right, zero without
  one.
\<close>

definition in_handle :: "Track \<Rightarrow> nat \<Rightarrow> rat" where
  "in_handle tr ci =
     (case fst (neighbors_of tr ci) of Some (TransitionC t) \<Rightarrow> rvalue (in_offset t) | _ \<Rightarrow> 0)"

definition out_handle :: "Track \<Rightarrow> nat \<Rightarrow> rat" where
  "out_handle tr ci =
     (case snd (neighbors_of tr ci) of Some (TransitionC t) \<Rightarrow> rvalue (out_offset t) | _ \<Rightarrow> 0)"

section \<open>Properties\<close>

subsection \<open>What the traversal leaves alone\<close>

lemma ore_refl: "only_readers_events p p"
  by (simp add: only_readers_events_def)

lemma ore_trans:
  "only_readers_events p p' \<Longrightarrow> only_readers_events p' p'' \<Longrightarrow> only_readers_events p p''"
  by (simp add: only_readers_events_def)

lemma readVideoFrame_frame:
  "readVideoFrame io p ti tr ci clip t vl img = Some (p', f) \<Longrightarrow> only_readers_events p p'"
  unfolding readVideoFrame_def only_readers_events_def scheduling_def Let_def
  by (auto split: if_splits option.splits OpenResult.splits)

lemma clip_part_frame:
  "clip_part io ti tr ci t vl img pd = Some pd' \<Longrightarrow> only_readers_events (fst pd) (fst pd')"
  unfolding clip_part_def
  by (auto split: option.splits Composable.splits dest: readVideoFrame_frame simp: ore_refl)

lemma right_part_frame:
  "right_part io ti tr ci rng t vl pd = Some pd' \<Longrightarrow> only_readers_events (fst pd) (fst pd')"
  unfolding right_part_def Let_def
  by (auto split: option.splits Composable.splits if_splits dest: readVideoFrame_frame
      simp: ore_refl)

lemma left_part_frame:
  "left_part io ti tr ci rng t vl pd = Some pd' \<Longrightarrow> only_readers_events (fst pd) (fst pd')"
  unfolding left_part_def Let_def
  by (auto split: option.splits Composable.splits if_splits dest: readVideoFrame_frame
      simp: ore_refl)

lemma item_layer_frame:
  "only_readers_events p (fst (item_layer io p ti tr ci t vl img))"
  unfolding item_layer_def
  by (auto split: option.splits
      dest!: clip_part_frame right_part_frame left_part_frame simp: only_readers_events_def)

lemma children_loop_frame:
  "only_readers_events (fst pl) (fst (fst (children_loop io ti tr t vl img cs pl)))"
proof (induction cs arbitrary: pl)
  case Nil
  show ?case by (simp add: ore_refl)
next
  case (Cons ci cs)
  have step: "only_readers_events (fst pl) (fst (item_layer io (fst pl) ti tr ci t vl img))"
    by (rule item_layer_frame)
  show ?case
  proof (cases "item_layer io (fst pl) ti tr ci t vl img")
    case (Pair p' res)
    with step have s: "only_readers_events (fst pl) p'" by simp
    show ?thesis
    proof (cases res)
      case Skipped
      with Pair s Cons.IH[of "(p', snd pl)"] show ?thesis by (auto intro: ore_trans)
    next
      case (Produced d)
      with Pair s Cons.IH[of "(p', snd pl @ [d])"] show ?thesis by (auto intro: ore_trans)
    next
      case Thrown
      with Pair s show ?thesis by simp
    qed
  qed
qed

lemma tracks_loop_frame:
  "only_readers_events (fst pl) (fst (fst (tracks_loop io t vl img js pl)))"
proof (induction js arbitrary: pl)
  case Nil
  show ?case by (simp add: ore_refl)
next
  case (Cons j js)
  obtain ti tr where j: "j = (ti, tr)" by (cases j)
  show ?case
  proof (cases "kind tr = ''Video''")
    case False
    with j Cons.IH[of pl] show ?thesis by simp
  next
    case True
    obtain pl' b where c: "children_loop io ti tr t vl img [0..<length (children tr)] pl = (pl', b)"
      by (cases "children_loop io ti tr t vl img [0..<length (children tr)] pl")
    have s: "only_readers_events (fst pl) (fst pl')"
      using children_loop_frame[of pl io ti tr t vl img "[0..<length (children tr)]"] c by simp
    show ?thesis
      using True j c s Cons.IH[of pl'] by (cases b) (auto intro: ore_trans)
  qed
qed

subsection \<open>A request after the thread has stopped\<close>

text \<open>
  C10. When the thread has stopped, \<open>getFrame\<close> sets the promise of the returned future at
  once to a default-constructed frame: its layers are empty and its time is the invalid
  time, whatever time was requested, and neither the pending list nor the list of the
  requests in progress changes.
\<close>

theorem getFrame_after_stopped:
  "stopped p \<Longrightarrow>
     frameFutures (snd (getFrame t vl img p)) (fst (getFrame t vl img p))
       = Some (Fulfilled Frame_default) \<and>
     layers Frame_default = [] \<and>
     time Frame_default = invalidTime \<and>
     (t \<noteq> invalidTime \<longrightarrow> time Frame_default \<noteq> t) \<and>
     requests (snd (getFrame t vl img p)) = requests p \<and>
     requestsInProgress (snd (getFrame t vl img p)) = requestsInProgress p"
  by (simp add: getFrame_def Let_def Frame_default_def)

theorem getFrame_after_stopped_witness:
  "stopped (ex_init\<lparr>stopped := True\<rparr>) \<and>
   frameFutures (snd (getFrame (RT 10 24) 0 None (ex_init\<lparr>stopped := True\<rparr>)))
       (fst (getFrame (RT 10 24) 0 None (ex_init\<lparr>stopped := True\<rparr>)))
     = Some (Fulfilled \<lparr>time = RT (-1) (-1), layers = []\<rparr>) \<and>
   requests (snd (getFrame (RT 10 24) 0 None (ex_init\<lparr>stopped := True\<rparr>))) = []"
  using getFrame_after_stopped[of "ex_init\<lparr>stopped := True\<rparr>" "RT 10 24" 0 None]
  by (simp add: ex_init_def Private_init_def Frame_default_def invalidTime_def)

subsection \<open>Cancelling the pending requests\<close>

lemma destroy_requests_other:
  "i \<notin> promise ` set rs \<Longrightarrow> destroy_requests rs fs i = fs i"
  by (induction rs arbitrary: fs) (auto simp: destroy_promise_def split: option.splits FrameFuture.splits)

lemma destroy_requests_breaks:
  "distinct (map promise rs) \<Longrightarrow> r \<in> set rs \<Longrightarrow> fs (promise r) = Some Unfulfilled \<Longrightarrow>
   destroy_requests rs fs (promise r) = Some BrokenPromise"
proof (induction rs arbitrary: fs)
  case Nil
  then show ?case by simp
next
  case (Cons a rs)
  show ?case
  proof (cases "r = a")
    case True
    from Cons.prems have "promise a \<notin> promise ` set rs" by auto
    with True Cons.prems(3) show ?thesis
      by (simp add: destroy_requests_other destroy_promise_def)
  next
    case False
    with Cons.prems have r: "r \<in> set rs" and d: "distinct (map promise rs)" by auto
    from Cons.prems have "promise a \<notin> promise ` set rs" by simp
    with r have n: "promise r \<noteq> promise a" by (metis imageI)
    have u: "destroy_promise fs (promise a) (promise r) = Some Unfulfilled"
      using n Cons.prems(3) by (simp add: destroy_promise_def split: option.splits FrameFuture.splits)
    from Cons.IH[OF d r, of "destroy_promise fs (promise a)"] u show ?thesis by simp
  qed
qed

text \<open>
  What \<open>cancelFrames\<close> does in every state: the pending list is emptied, every reader of
  the map is asked to cancel its video frames, the requests in progress stay, and the
  promise of each pending request, distinct and unset, is broken.
\<close>

lemma cancelFrames_effect:
  "requests (cancelFrames p) = [] \<and>
   requestsInProgress (cancelFrames p) = requestsInProgress p \<and>
   events (cancelFrames p) = events p @ map (\<lambda>kr. EvCancelVideoFrames (fst kr)) (readers p) \<and>
   (distinct (map promise (requests p)) \<and> r \<in> set (requests p) \<and>
    frameFutures p (promise r) = Some Unfulfilled \<longrightarrow>
      frameFutures (cancelFrames p) (promise r) = Some BrokenPromise)"
  by (simp add: cancelFrames_def destroy_requests_breaks)

text \<open>
  C1. A request is submitted for the time 10/24 and \<open>cancelFrames\<close> is called before a
  tick has taken it. \<^verbatim>\<open>requests.clear()\<close> destroys the request with its promise unset, so
  the caller's future holds the broken-promise exception: it does not resolve with an
  empty frame of the requested time.
\<close>

theorem cancelFrames_breaks_pending_promise:
  "frameFutures (cancelFrames (snd (getFrame (RT 10 24) 0 None ex_init)))
       (fst (getFrame (RT 10 24) 0 None ex_init)) = Some BrokenPromise \<and>
   frameFutures (cancelFrames (snd (getFrame (RT 10 24) 0 None ex_init)))
       (fst (getFrame (RT 10 24) 0 None ex_init))
     \<noteq> Some (Fulfilled \<lparr>time = RT 10 24, layers = []\<rparr>) \<and>
   requests (cancelFrames (snd (getFrame (RT 10 24) 0 None ex_init))) = []"
  by (simp add: ex_init_def Private_init_def getFrame_def cancelFrames_def Let_def
      destroy_promise_def)

subsection \<open>The fields that the traversal keeps\<close>

lemma ore_fields:
  assumes "only_readers_events p p'"
  shows "requests p' = requests p" "requestsInProgress p' = requestsInProgress p"
    "requestCount p' = requestCount p" "frameFutures p' = frameFutures p"
    "nextPromise p' = nextPromise p" "stopped p' = stopped p"
    "otioTimeline p' = otioTimeline p" "globalStartTime p' = globalStartTime p"
    "activeRanges p' = activeRanges p" "stoppedReaders p' = stoppedReaders p"
proof -
  from assms have e: "scheduling p' = scheduling p" by (simp add: only_readers_events_def)
  show "requests p' = requests p" using arg_cong[OF e, of requests] by (simp add: scheduling_def)
  show "requestsInProgress p' = requestsInProgress p"
    using arg_cong[OF e, of requestsInProgress] by (simp add: scheduling_def)
  show "requestCount p' = requestCount p"
    using arg_cong[OF e, of requestCount] by (simp add: scheduling_def)
  show "frameFutures p' = frameFutures p"
    using arg_cong[OF e, of frameFutures] by (simp add: scheduling_def)
  show "nextPromise p' = nextPromise p"
    using arg_cong[OF e, of nextPromise] by (simp add: scheduling_def)
  show "stopped p' = stopped p" using arg_cong[OF e, of stopped] by (simp add: scheduling_def)
  show "otioTimeline p' = otioTimeline p"
    using arg_cong[OF e, of otioTimeline] by (simp add: scheduling_def)
  show "globalStartTime p' = globalStartTime p"
    using arg_cong[OF e, of globalStartTime] by (simp add: scheduling_def)
  show "activeRanges p' = activeRanges p"
    using arg_cong[OF e, of activeRanges] by (simp add: scheduling_def)
  show "stoppedReaders p' = stoppedReaders p"
    using arg_cong[OF e, of stoppedReaders] by (simp add: scheduling_def)
qed

lemma traverse_fields:
  "requests (traverse io p r) = requests p"
  "requestsInProgress (traverse io p r) = requestsInProgress p @ [traversed io p r]"
  "requestCount (traverse io p r) = requestCount p"
  "frameFutures (traverse io p r) = frameFutures p"
  "otioTimeline (traverse io p r) = otioTimeline p"
  "globalStartTime (traverse io p r) = globalStartTime p"
  using ore_fields[OF tracks_loop_frame[of "(p, layerData r)" io
        "rt_sub (req_time r) (globalStartTime p)" "videoLayer r" "req_image r"
        "zip [0..<length (otioTimeline p)] (otioTimeline p)"]]
  by (simp_all add: traverse_def traversed_def Let_def)

subsection \<open>The bound on the requests in progress\<close>

lemma gather_eq:
  "gather count n new rs =
     (new @ take (count - (n + length new)) rs, drop (count - (n + length new)) rs)"
proof (induction rs arbitrary: new)
  case Nil
  show ?case by simp
next
  case (Cons r rs)
  show ?case
  proof (cases "n + length new < count")
    case True
    then obtain k where k: "count - (n + length new) = Suc k"
      by (cases "count - (n + length new)") auto
    with True have "count - (n + length (new @ [r])) = k" by simp
    with True k Cons.IH[of "new @ [r]"] show ?thesis by simp
  next
    case False
    then show ?thesis by simp
  qed
qed

lemma traverse_all_fields:
  "requests (traverse_all io rs p) = requests p \<and>
   length (requestsInProgress (traverse_all io rs p)) = length (requestsInProgress p) + length rs \<and>
   requestCount (traverse_all io rs p) = requestCount p \<and>
   frameFutures (traverse_all io rs p) = frameFutures p"
  by (induction rs arbitrary: p) (simp_all add: traverse_fields)

lemma finish_requests_length: "length (fst (finish_requests rs fs)) \<le> length rs"
  by (induction rs arbitrary: fs) (auto simp: Let_def le_SucI)

lemma frameRequests_count: "requestCount (frameRequests io p) = requestCount p"
  by (simp add: frameRequests_def Let_def traverse_all_fields)

lemma frameRequests_bound:
  assumes "length (requestsInProgress p) \<le> requestCount p"
  shows "length (requestsInProgress (frameRequests io p)) \<le> requestCount p"
proof -
  let ?g = "gather (requestCount p) (length (requestsInProgress p)) [] (requests p)"
  let ?p1 = "traverse_all io (fst ?g) (p\<lparr>requests := snd ?g\<rparr>)"
  have "length (fst ?g) \<le> requestCount p - length (requestsInProgress p)"
    by (simp add: gather_eq)
  with assms have "length (requestsInProgress ?p1) \<le> requestCount p"
    by (simp add: traverse_all_fields)
  moreover have "length (fst (finish_requests (requestsInProgress ?p1) (frameFutures ?p1)))
      \<le> length (requestsInProgress ?p1)"
    by (rule finish_requests_length)
  ultimately show ?thesis by (simp add: frameRequests_def Let_def)
qed

lemma stopReaders_queue:
  "requestsInProgress (stopReaders io p) = requestsInProgress p \<and>
   requestCount (stopReaders io p) = requestCount p \<and>
   requests (stopReaders io p) = requests p \<and>
   frameFutures (stopReaders io p) = frameFutures p"
  by (simp add: stopReaders_def split: prod.splits)

lemma delReaders_queue:
  "requestsInProgress (delReaders io p) = requestsInProgress p \<and>
   requestCount (delReaders io p) = requestCount p \<and>
   requests (delReaders io p) = requests p \<and>
   frameFutures (delReaders io p) = frameFutures p"
  by (simp add: delReaders_def split: prod.splits)

lemma tick_bound:
  "length (requestsInProgress p) \<le> requestCount p \<Longrightarrow>
   length (requestsInProgress (tick io p)) \<le> requestCount p \<and>
   requestCount (tick io p) = requestCount p"
  by (simp add: tick_def stopReaders_queue delReaders_queue frameRequests_bound
      frameRequests_count)

lemma act_bound:
  "length (requestsInProgress p) \<le> requestCount p \<Longrightarrow>
   length (requestsInProgress (act a p)) \<le> requestCount p \<and>
   requestCount (act a p) = requestCount p"
  by (cases a)
    (simp_all add: tick_bound getFrame_def Let_def cancelFrames_def setActiveRanges_def
      readers_finish_def)

lemma run_bound:
  "length (requestsInProgress p) \<le> requestCount p \<Longrightarrow>
   length (requestsInProgress (run as p)) \<le> requestCount p \<and>
   requestCount (run as p) = requestCount p"
proof (induction as arbitrary: p)
  case Nil
  then show ?case by simp
next
  case (Cons a as)
  from act_bound[OF Cons.prems, of a] Cons.IH[of "act a p"] show ?case by simp
qed

text \<open>
  C7. The request count of a new timeline is 16 and nothing is in progress. From a state
  in which the requests in progress are no more than the request count, every sequence
  of submissions, cancellations, changes of the active ranges, reader completions and
  ticks leads to such a state again, with the same request count (the sequence does not
  set the request count). The first loop of a
  tick that finds \<open>n\<close> requests in progress promotes the first \<open>count - n\<close> pending
  requests and leaves the others pending: it promotes only while the requests in
  progress and the new ones are fewer than the count.
\<close>

theorem inflight_bounded_by_requestCount:
  "requestCount (Private_init tracks dur gst) = 16 \<and>
   requestsInProgress (Private_init tracks dur gst) = [] \<and>
   (length (requestsInProgress p) \<le> requestCount p \<longrightarrow>
      length (requestsInProgress (run as p)) \<le> requestCount p \<and>
      requestCount (run as p) = requestCount p) \<and>
   gather count n [] rs = (take (count - n) rs, drop (count - n) rs)"
  using run_bound[of p as] by (simp add: Private_init_def gather_eq)

theorem inflight_bounded_by_requestCount_witness:
  "length (requestsInProgress ex_init) \<le> requestCount ex_init \<and>
   length (requestsInProgress (run ex_burst ex_init)) \<le> 16 \<and>
   length (requestsInProgress (run ex_burst ex_init)) = 16 \<and>
   length (requests (run ex_burst ex_init)) = 84"
proof -
  have h: "length (requestsInProgress ex_init) \<le> requestCount ex_init"
    by (simp add: ex_init_def Private_init_def)
  have c: "requestCount ex_init = 16"
    by (simp add: ex_init_def Private_init_def)
  have q: "length (requestsInProgress (run ex_burst ex_init)) = 16 \<and>
           length (requests (run ex_burst ex_init)) = 84"
    by code_simp
  from inflight_bounded_by_requestCount[of "[ex_track]" "RT 96 24" "RT 0 24" ex_init ex_burst 16 0 "[]"]
    h c q
  show ?thesis by simp
qed

subsection \<open>Completion of the requests in progress\<close>

lemma layers_valid_iff: "layers_valid v ls = (v \<and> all_futures_ready ls)"
  by (induction ls arbitrary: v) (auto simp: all_futures_ready_def Let_def)

lemma get_layer_eq:
  "get_layer d = (if holds_values d then Value (frame_layer d) else Exception)"
  by (cases "image d" rule: throws.cases; cases "imageB d" rule: throws.cases)
     (simp_all add: get_layer_def holds_values_def frame_layer_def)

lemma collect_layers_eq:
  "collect_layers ls acc = acc @ map frame_layer (takeWhile holds_values ls)"
  by (induction ls arbitrary: acc) (simp_all add: get_layer_eq)

lemma assemble_layers_eq:
  "assemble_layers ls acc =
     (if list_all holds_values ls then Some (acc @ map frame_layer ls) else None)"
  by (induction ls arbitrary: acc) (simp_all add: get_layer_eq)

lemma finish_requests_kept:
  "fst (finish_requests rs fs) = filter (\<lambda>r. \<not> all_futures_ready (layerData r)) rs"
  by (induction rs arbitrary: fs) (simp_all add: layers_valid_iff Let_def)

lemma finish_requests_other:
  "i \<notin> promise ` set rs \<Longrightarrow> snd (finish_requests rs fs) i = fs i"
  by (induction rs arbitrary: fs) (auto simp: Let_def)

lemma finish_requests_store:
  "distinct (map promise rs) \<Longrightarrow> r \<in> set rs \<Longrightarrow>
   snd (finish_requests rs fs) (promise r) =
     (if all_futures_ready (layerData r)
      then Some (Fulfilled \<lparr>time = req_time r,
                  layers = map frame_layer (takeWhile holds_values (layerData r))\<rparr>)
      else fs (promise r))"
proof (induction rs arbitrary: fs)
  case Nil
  then show ?case by simp
next
  case (Cons a rs)
  show ?case
  proof (cases "r = a")
    case True
    from Cons.prems have "promise a \<notin> promise ` set rs" by auto
    then show ?thesis
      using True by (simp add: layers_valid_iff Let_def finish_requests_other collect_layers_eq)
  next
    case False
    with Cons.prems have r: "r \<in> set rs" and d: "distinct (map promise rs)" by auto
    from Cons.prems have "promise a \<notin> promise ` set rs" by simp
    with r have n: "promise r \<noteq> promise a" by (metis imageI)
    from Cons.IH[OF d r] n show ?thesis by (simp add: Let_def)
  qed
qed

lemma traversed_promise:
  "promise (traversed io p r) = promise r \<and> req_time (traversed io p r) = req_time r"
  by (simp add: traversed_def)

lemma traverse_all_promises:
  "map promise (requestsInProgress (traverse_all io rs p)) =
     map promise (requestsInProgress p) @ map promise rs \<and>
   map req_time (requestsInProgress (traverse_all io rs p)) =
     map req_time (requestsInProgress p) @ map req_time rs"
  by (induction rs arbitrary: p) (simp_all add: traverse_fields traversed_promise)

lemma dispatch_fields:
  "frameFutures (dispatch io p) = frameFutures p"
  "map promise (requestsInProgress (dispatch io p)) =
     map promise (requestsInProgress p) @
     map promise (take (requestCount p - length (requestsInProgress p)) (requests p))"
  "requests (dispatch io p) = drop (requestCount p - length (requestsInProgress p)) (requests p)"
  by (simp_all add: dispatch_def Let_def traverse_all_fields traverse_all_promises gather_eq)

lemma dispatch_distinct:
  assumes "distinct (map promise (requests p @ requestsInProgress p))"
  shows "distinct (map promise (requestsInProgress (dispatch io p)))"
proof -
  let ?k = "requestCount p - length (requestsInProgress p)"
  have "set (take ?k (requests p)) \<subseteq> set (requests p)" by (rule set_take_subset)
  moreover have "distinct (map promise (take ?k (requests p)))"
    using assms by (simp add: take_map[symmetric] distinct_take)
  ultimately show ?thesis
    using assms by (auto simp: dispatch_fields)
qed

lemma frameRequests_dispatch:
  "frameRequests io p =
     (dispatch io p)\<lparr>requestsInProgress :=
          fst (finish_requests (requestsInProgress (dispatch io p)) (frameFutures (dispatch io p))),
        frameFutures :=
          snd (finish_requests (requestsInProgress (dispatch io p)) (frameFutures (dispatch io p)))\<rparr>"
  by (simp add: frameRequests_def dispatch_def Let_def)

text \<open>
  C9, as the claim states it, fails. A request over three tracks has three layers; all
  three futures are ready, the second holds an exception. The tick sets the promise to a
  frame with the first layer only: \<^verbatim>\<open>get()\<close> of the second future throws inside \<^verbatim>\<open>try\<close>, the
  loop ends, and the image of the third layer is not delivered.
\<close>

theorem partial_frame_delivered:
  "map (map image \<circ> layerData)
     (requestsInProgress (dispatch ex_io_three (snd (getFrame (RT 10 24) 0 None ex_three))))
     = [[Future True (Value (Some 5)), Future True Exception, Future True (Value (Some 7))]] \<and>
   frameFutures (tick ex_io_three (snd (getFrame (RT 10 24) 0 None ex_three))) 0
     = Some (Fulfilled \<lparr>time = RT 10 24,
               layers = [\<lparr>fl_image = Some 5, fl_imageB = None, fl_transition = Transition_None,
                          fl_transitionValue = Some 0\<rparr>]\<rparr>)"
  by code_simp

text \<open>
  C9, amended. The promises of the pending and in-progress requests being distinct, a
  request that is in progress when a tick checks for finished requests leaves the list
  in that tick exactly when every valid future of its layers polls as ready. Until then
  its promise is untouched. When it leaves, its promise is set to a frame with the
  time of the request and the layers that precede the first layer whose future holds an
  exception; when no future holds an exception these are all the layers of the request,
  each with the images of its valid futures.
\<close>

theorem frame_fulfilled_when_all_ready:
  "distinct (map promise (requests p @ requestsInProgress p)) \<Longrightarrow>
   r \<in> set (requestsInProgress (dispatch io p)) \<Longrightarrow>
     (r \<in> set (requestsInProgress (frameRequests io p)) \<longleftrightarrow> \<not> all_futures_ready (layerData r)) \<and>
     (\<not> all_futures_ready (layerData r) \<longrightarrow>
        frameFutures (frameRequests io p) (promise r) = frameFutures p (promise r)) \<and>
     (all_futures_ready (layerData r) \<longrightarrow>
        frameFutures (frameRequests io p) (promise r) =
          Some (Fulfilled \<lparr>time = req_time r,
                  layers = map frame_layer (takeWhile holds_values (layerData r))\<rparr>)) \<and>
     (all_futures_ready (layerData r) \<and> list_all holds_values (layerData r) \<longrightarrow>
        frameFutures (frameRequests io p) (promise r) =
          Some (Fulfilled \<lparr>time = req_time r, layers = map frame_layer (layerData r)\<rparr>))"
proof -
  assume d: "distinct (map promise (requests p @ requestsInProgress p))"
    and r: "r \<in> set (requestsInProgress (dispatch io p))"
  have dd: "distinct (map promise (requestsInProgress (dispatch io p)))"
    using d by (rule dispatch_distinct)
  have t: "list_all holds_values (layerData r) \<longrightarrow>
      map frame_layer (takeWhile holds_values (layerData r)) = map frame_layer (layerData r)"
    by (metis list_all_iff takeWhile_eq_all_conv)
  have s: "frameFutures (frameRequests io p) (promise r) =
     (if all_futures_ready (layerData r)
      then Some (Fulfilled \<lparr>time = req_time r,
                  layers = map frame_layer (takeWhile holds_values (layerData r))\<rparr>)
      else frameFutures p (promise r))"
    using finish_requests_store[OF dd r, of "frameFutures p"]
    by (simp add: frameRequests_dispatch dispatch_fields(1))
  have k: "(r \<in> set (requestsInProgress (frameRequests io p))) =
      (\<not> all_futures_ready (layerData r))"
    using r by (simp add: frameRequests_dispatch finish_requests_kept)
  show ?thesis
    unfolding s k using t by simp
qed

theorem frame_fulfilled_when_all_ready_witness:
  "distinct (map promise (requests (snd (getFrame (RT 45 24) 0 None ex_init)) @
                          requestsInProgress (snd (getFrame (RT 45 24) 0 None ex_init)))) \<and>
   ex_request \<in> set (requestsInProgress
      (dispatch (ex_io True (Value (Some 1))) (snd (getFrame (RT 45 24) 0 None ex_init)))) \<and>
   all_futures_ready (layerData ex_request) \<and>
   ex_request \<notin> set (requestsInProgress
      (frameRequests (ex_io True (Value (Some 1))) (snd (getFrame (RT 45 24) 0 None ex_init)))) \<and>
   frameFutures
       (frameRequests (ex_io True (Value (Some 1))) (snd (getFrame (RT 45 24) 0 None ex_init))) 0
     = Some (Fulfilled \<lparr>time = RT 45 24,
               layers = [\<lparr>fl_image = Some 1, fl_imageB = Some 1, fl_transition = Dissolve,
                          fl_transitionValue = Some (4 / 13)\<rparr>]\<rparr>)"
proof -
  let ?p = "snd (getFrame (RT 45 24) 0 None ex_init)"
  let ?io = "ex_io True (Value (Some 1))"
  have d: "distinct (map promise (requests ?p @ requestsInProgress ?p))"
    by code_simp
  have r: "ex_request \<in> set (requestsInProgress (dispatch ?io ?p))"
    by code_simp
  have a: "all_futures_ready (layerData ex_request)"
    by code_simp
  have l: "map frame_layer (takeWhile holds_values (layerData ex_request)) =
      [\<lparr>fl_image = Some 1, fl_imageB = Some 1, fl_transition = Dissolve,
        fl_transitionValue = Some (4 / 13)\<rparr>]"
    by code_simp
  from frame_fulfilled_when_all_ready[OF d r] a l d r show ?thesis
    by (simp add: ex_request_def)
qed

subsection \<open>The end of the thread\<close>

lemma cleanup_requests_other:
  "cleanup_requests rs fs = Some fs' \<Longrightarrow> i \<notin> promise ` set rs \<Longrightarrow> fs' i = fs i"
  by (induction rs arbitrary: fs) (auto split: option.splits)

lemma cleanup_requests_fulfils:
  "distinct (map promise rs) \<Longrightarrow> list_all (\<lambda>r. list_all holds_values (layerData r)) rs \<Longrightarrow>
   \<exists>fs'. cleanup_requests rs fs = Some fs' \<and>
     (\<forall>r \<in> set rs. fs' (promise r) =
        Some (Fulfilled \<lparr>time = req_time r, layers = map frame_layer (layerData r)\<rparr>))"
proof (induction rs arbitrary: fs)
  case Nil
  then show ?case by simp
next
  case (Cons a rs)
  let ?fs1 = "fs(promise a \<mapsto>
      Fulfilled \<lparr>time = req_time a, layers = map frame_layer (layerData a)\<rparr>)"
  from Cons.prems have d: "distinct (map promise rs)" and n: "promise a \<notin> promise ` set rs"
    and h: "list_all (\<lambda>r. list_all holds_values (layerData r)) rs"
    and ha: "list_all holds_values (layerData a)" by auto
  from Cons.IH[OF d h, of ?fs1] obtain fs' where
    c: "cleanup_requests rs ?fs1 = Some fs'" and
    f: "\<forall>r \<in> set rs. fs' (promise r) =
        Some (Fulfilled \<lparr>time = req_time r, layers = map frame_layer (layerData r)\<rparr>)" by blast
  from cleanup_requests_other[OF c n] have "fs' (promise a) = ?fs1 (promise a)" .
  with c f ha show ?case by (simp add: assemble_layers_eq)
qed

text \<open>
  When no layer future of an outstanding request holds an exception, the thread ends
  with every outstanding promise set to a frame of the request's time, with one layer
  for each layer of the request.
\<close>

lemma thread_exit_fulfils:
  assumes "distinct (map promise (requests p @ requestsInProgress p))"
    and "list_all (\<lambda>r. list_all holds_values (layerData r)) (requests p @ requestsInProgress p)"
  shows "\<exists>p'. thread_exit p = Inr p' \<and> stopped p' \<and> requests p' = [] \<and>
     requestsInProgress p' = [] \<and>
     (\<forall>r \<in> set (requests p @ requestsInProgress p). frameFutures p' (promise r) =
        Some (Fulfilled \<lparr>time = req_time r, layers = map frame_layer (layerData r)\<rparr>))"
proof -
  from cleanup_requests_fulfils[OF assms, of "frameFutures p"] obtain fs' where
    "cleanup_requests (requests p @ requestsInProgress p) (frameFutures p) = Some fs'"
    "\<forall>r \<in> set (requests p @ requestsInProgress p). fs' (promise r) =
        Some (Fulfilled \<lparr>time = req_time r, layers = map frame_layer (layerData r)\<rparr>)" by blast
  then show ?thesis by (simp add: thread_exit_def Let_def)
qed

text \<open>
  C2. A request is in progress; after the last tick its reader makes the future of its
  layer ready with an exception (the reader has dropped the read). The timeline is
  destroyed. The thread does not set the promise: \<^verbatim>\<open>get()\<close> throws outside any \<^verbatim>\<open>try\<close> and
  the program is terminated. The loop in the tick has the \<^verbatim>\<open>try\<close> that this loop lacks.
\<close>

theorem destroy_terminates_on_exception:
  "Timeline_destroy (ex_io False Exception) 0
     (run [AGetFrame (RT 10 24) 0 None, ATick (ex_io False Exception), AReadersFinish] ex_init)
     = Inl Terminated \<and>
   map (map image \<circ> layerData)
     (requestsInProgress
        (run [AGetFrame (RT 10 24) 0 None, ATick (ex_io False Exception), AReadersFinish] ex_init))
     = [[Future True Exception]] \<and>
   frameFutures
     (run [AGetFrame (RT 10 24) 0 None, ATick (ex_io False Exception), AReadersFinish] ex_init) 0
     = Some Unfulfilled"
proof -
  let ?p = "run [AGetFrame (RT 10 24) 0 None, ATick (ex_io False Exception), AReadersFinish] ex_init"
  let ?d = "Timeline_destroy (ex_io False Exception) 0 ?p"
  have "isl ?d" by code_simp
  then have "?d = Inl Terminated"
    by (cases ?d) (simp_all, metis Terminated.exhaust)
  moreover have "map (map image \<circ> layerData) (requestsInProgress ?p) = [[Future True Exception]] \<and>
      frameFutures ?p 0 = Some Unfulfilled"
    by code_simp
  ultimately show ?thesis by simp
qed

subsection \<open>The calls on the readers during a tick\<close>

lemma ra_intro: "events p' = events p @ ds \<Longrightarrow> list_all is_dispatch ds \<Longrightarrow> reads_appended p p'"
  by (simp add: reads_appended_def)

lemma ra_elim: "reads_appended p p' \<Longrightarrow> \<exists>ds. events p' = events p @ ds \<and> list_all is_dispatch ds"
  unfolding reads_appended_def by (metis append_take_drop_id)

lemma ra_refl: "reads_appended p p"
  by (simp add: reads_appended_def)

lemma ra_trans: "reads_appended p p' \<Longrightarrow> reads_appended p' p'' \<Longrightarrow> reads_appended p p''"
proof -
  assume a: "reads_appended p p'" and b: "reads_appended p' p''"
  from ra_elim[OF a] obtain ds where d: "events p' = events p @ ds" "list_all is_dispatch ds" by blast
  from ra_elim[OF b] obtain es where e: "events p'' = events p' @ es" "list_all is_dispatch es" by blast
  from d e have "events p'' = events p @ (ds @ es)" "list_all is_dispatch (ds @ es)" by simp_all
  then show ?thesis by (rule ra_intro)
qed

lemma readVideoFrame_reads:
  "readVideoFrame io p ti tr ci clip t vl img = Some (p', f) \<Longrightarrow> reads_appended p p'"
  unfolding readVideoFrame_def reads_appended_def Let_def
  by (auto split: if_splits option.splits OpenResult.splits)

lemma clip_part_reads:
  "clip_part io ti tr ci t vl img pd = Some pd' \<Longrightarrow> reads_appended (fst pd) (fst pd')"
  unfolding clip_part_def
  by (auto split: option.splits Composable.splits dest: readVideoFrame_reads simp: ra_refl)

lemma right_part_reads:
  "right_part io ti tr ci rng t vl pd = Some pd' \<Longrightarrow> reads_appended (fst pd) (fst pd')"
  unfolding right_part_def Let_def
  by (auto split: option.splits Composable.splits if_splits dest: readVideoFrame_reads
      simp: ra_refl)

lemma left_part_reads:
  "left_part io ti tr ci rng t vl pd = Some pd' \<Longrightarrow> reads_appended (fst pd) (fst pd')"
  unfolding left_part_def Let_def
  by (auto split: option.splits Composable.splits if_splits dest: readVideoFrame_reads
      simp: ra_refl)

lemma item_layer_reads:
  "reads_appended p (fst (item_layer io p ti tr ci t vl img))"
  unfolding item_layer_def
  apply (auto split: option.splits simp: ra_refl
      dest!: clip_part_reads right_part_reads left_part_reads)
  by (blast intro: ra_trans)+

lemma children_loop_reads:
  "reads_appended (fst pl) (fst (fst (children_loop io ti tr t vl img cs pl)))"
proof (induction cs arbitrary: pl)
  case Nil
  show ?case by (simp add: ra_refl)
next
  case (Cons ci cs)
  have step: "reads_appended (fst pl) (fst (item_layer io (fst pl) ti tr ci t vl img))"
    by (rule item_layer_reads)
  show ?case
  proof (cases "item_layer io (fst pl) ti tr ci t vl img")
    case (Pair p' res)
    with step have s: "reads_appended (fst pl) p'" by simp
    show ?thesis
    proof (cases res)
      case Skipped
      with Pair s Cons.IH[of "(p', snd pl)"] show ?thesis by (auto intro: ra_trans)
    next
      case (Produced d)
      with Pair s Cons.IH[of "(p', snd pl @ [d])"] show ?thesis by (auto intro: ra_trans)
    next
      case Thrown
      with Pair s show ?thesis by simp
    qed
  qed
qed

lemma tracks_loop_reads:
  "reads_appended (fst pl) (fst (fst (tracks_loop io t vl img js pl)))"
proof (induction js arbitrary: pl)
  case Nil
  show ?case by (simp add: ra_refl)
next
  case (Cons j js)
  obtain ti tr where j: "j = (ti, tr)" by (cases j)
  show ?case
  proof (cases "kind tr = ''Video''")
    case False
    with j Cons.IH[of pl] show ?thesis by simp
  next
    case True
    obtain pl' b where c: "children_loop io ti tr t vl img [0..<length (children tr)] pl = (pl', b)"
      by (cases "children_loop io ti tr t vl img [0..<length (children tr)] pl")
    have s: "reads_appended (fst pl) (fst pl')"
      using children_loop_reads[of pl io ti tr t vl img "[0..<length (children tr)]"] c by simp
    show ?thesis
      using True j c s Cons.IH[of pl'] by (cases b) (auto intro: ra_trans)
  qed
qed

lemma traverse_reads: "reads_appended p (traverse io p r)"
proof -
  have "reads_appended p (fst (fst (tracks_loop io (rt_sub (req_time r) (globalStartTime p))
      (videoLayer r) (req_image r) (zip [0..<length (otioTimeline p)] (otioTimeline p))
      (p, layerData r))))"
    using tracks_loop_reads[of "(p, layerData r)"] by simp
  then show ?thesis by (simp add: traverse_def Let_def reads_appended_def)
qed

lemma traverse_all_reads: "reads_appended p (traverse_all io rs p)"
proof (induction rs arbitrary: p)
  case Nil
  show ?case by (simp add: ra_refl)
next
  case (Cons r rs)
  from traverse_reads[of p io r] Cons.IH[of "traverse io p r"] show ?case
    by (auto intro: ra_trans)
qed

lemma frameRequests_reads: "reads_appended p (frameRequests io p)"
proof -
  let ?g = "gather (requestCount p) (length (requestsInProgress p)) [] (requests p)"
  have "reads_appended (p\<lparr>requests := snd ?g\<rparr>) (traverse_all io (fst ?g) (p\<lparr>requests := snd ?g\<rparr>))"
    by (rule traverse_all_reads)
  then show ?thesis by (simp add: frameRequests_def Let_def reads_appended_def)
qed

subsection \<open>Stopping the readers\<close>


lemma stopReaders_loop_eq:
  "stopReaders_loop io p rs (kept, st, evs) =
     (kept @ filter (\<lambda>kr. \<not> reader_del io p kr) rs,
      st @ map (\<lambda>kr. read (snd kr)) (filter (reader_del io p) rs),
      evs @ map (\<lambda>kr. EvStop (fst kr)) (filter (reader_del io p) rs))"
  by (induction rs arbitrary: kept st evs) simp_all

lemma stopReaders_eq:
  "readers (stopReaders io p) = filter (\<lambda>kr. \<not> reader_del io p kr) (readers p)"
  "stoppedReaders (stopReaders io p) =
     stoppedReaders p @ map (\<lambda>kr. read (snd kr)) (filter (reader_del io p) (readers p))"
  "events (stopReaders io p) =
     events p @ map (\<lambda>kr. EvStop (fst kr)) (filter (reader_del io p) (readers p))"
  by (simp_all add: stopReaders_def stopReaders_loop_eq)

lemma delReaders_loop_eq:
  "delReaders_loop io rs (kept, evs) =
     (kept @ filter (\<lambda>i. \<not> hasStopped io i) rs, evs @ map EvDelete (filter (hasStopped io) rs))"
  by (induction rs arbitrary: kept evs) simp_all

lemma delReaders_eq:
  "readers (delReaders io p) = readers p"
  "stoppedReaders (delReaders io p) = filter (\<lambda>i. \<not> hasStopped io i) (stoppedReaders p)"
  "events (delReaders io p) = events p @ map EvDelete (filter (hasStopped io) (stoppedReaders p))"
  by (simp_all add: delReaders_def delReaders_loop_eq)




subsection \<open>The order of dispatch and eviction in a tick\<close>

text \<open>
  C8. The calls that a tick makes on the readers are, in this order: the reads for the
  requests promoted in this tick, then the stops of the evicted readers, then the
  deletions of the readers that have stopped. The eviction is decided on the reader map
  as the dispatch leaves it, and a reader of that map that reports pending video frames
  when it is asked is still in the map after the tick.
\<close>

theorem eviction_after_dispatch:
  "\<exists>ds. events (frameRequests io p) = events p @ ds \<and> list_all is_dispatch ds \<and>
     events (tick io p) =
       events p @ ds @
       map (\<lambda>kr. EvStop (fst kr))
         (filter (reader_del io (frameRequests io p)) (readers (frameRequests io p))) @
       map EvDelete (filter (hasStopped io) (stoppedReaders (stopReaders io (frameRequests io p)))) \<and>
     readers (tick io p) =
       filter (\<lambda>kr. \<not> reader_del io (frameRequests io p) kr) (readers (frameRequests io p)) \<and>
     (\<forall>kr \<in> set (readers (frameRequests io p)).
        hasVideoFrames io (fst kr) \<longrightarrow> kr \<in> set (readers (tick io p)))"
proof -
  from ra_elim[OF frameRequests_reads[of p io]] obtain ds where
    d: "events (frameRequests io p) = events p @ ds" "list_all is_dispatch ds" by blast
  have k: "\<And>kr. hasVideoFrames io (fst kr) \<Longrightarrow> \<not> reader_del io (frameRequests io p) kr"
    by (simp add: reader_del_def split: option.splits)
  show ?thesis
    using d k by (auto simp: tick_def delReaders_eq stopReaders_eq)
qed

theorem eviction_after_dispatch_witness:
  "events (tick ex_io_evict ex_open) =
     events ex_open @ [EvReadVideoFrame (0, 2) (RT 12 24) 0 None, EvStop (0, 0), EvDelete (IRead ''A'')] \<and>
   map fst (readers (frameRequests ex_io_evict ex_open)) = [(0, 0), (0, 2)] \<and>
   map fst (readers (tick ex_io_evict ex_open)) = [(0, 2)]"
proof -
  have e: "events (tick ex_io_evict ex_open) =
     events ex_open @ [EvReadVideoFrame (0, 2) (RT 12 24) 0 None, EvStop (0, 0), EvDelete (IRead ''A'')] \<and>
   map fst (readers (frameRequests ex_io_evict ex_open)) = [(0, 0), (0, 2)] \<and>
   map fst (readers (tick ex_io_evict ex_open)) = [(0, 2)]"
    by code_simp
  from eviction_after_dispatch[of ex_io_evict ex_open] e show ?thesis by simp
qed

subsection \<open>The media time of a read\<close>











subsection \<open>The layer of an item\<close>

lemma clip_part_result:
  assumes "clip_part io ti tr ci t vl img (p, d0) = Some (p1, d1)"
  shows "imageB d1 = imageB d0 \<and> transition d1 = transition d0 \<and>
         transitionValue d1 = transitionValue d0 \<and>
         (\<forall>c. child_at tr ci = Some (ClipC c) \<longrightarrow>
            readVideoFrame io p ti tr ci c t vl img = Some (p1, image d1)) \<and>
         ((\<forall>c. child_at tr ci \<noteq> Some (ClipC c)) \<longrightarrow> p1 = p \<and> d1 = d0)"
  using assms unfolding clip_part_def
  by (auto split: option.splits Composable.splits)


lemma left_part_inactive:
  assumes "\<And>L. fst (neighbors_of tr ci) = Some (TransitionC L) \<Longrightarrow>
             \<not> rt_lt t (rt_add (start_time rng) (out_offset L))"
  shows "left_part io ti tr ci rng t vl pd = Some pd"
  using assms unfolding left_part_def
  by (simp split: option.splits Composable.splits)

lemma right_part_active:
  assumes "right_part io ti tr ci rng t vl (p1, d1) = Some (p2, d2)"
    and "snd (neighbors_of tr ci) = Some (TransitionC T)"
    and "rt_gt t (rt_sub (end_time_inclusive rng) (in_offset T))"
  shows "image d2 = image d1 \<and>
         transition d2 = toTransition (transition_type T) \<and>
         transitionValue d2 = transitionValue_of (rvalue t)
            (rvalue (end_time_inclusive rng) - rvalue (in_offset T))
            (rvalue (end_time_inclusive rng) + rvalue (out_offset T) + 1) \<and>
         (\<forall>cB. child_at tr (ci + 2) = Some (ClipC cB) \<longrightarrow>
            readVideoFrame io p1 ti tr (ci + 2) cB t vl None = Some (p2, imageB d2)) \<and>
         ((\<forall>cB. child_at tr (ci + 2) \<noteq> Some (ClipC cB)) \<longrightarrow> p2 = p1 \<and> imageB d2 = imageB d1)"
  using assms unfolding right_part_def Let_def
  by (auto simp: neighbors_of_def split: option.splits Composable.splits)

lemma left_part_active:
  assumes "left_part io ti tr ci rng t vl (p2, d2) = Some (p3, d3)"
    and "fst (neighbors_of tr ci) = Some (TransitionC L)"
    and "rt_lt t (rt_add (start_time rng) (out_offset L))"
  shows "imageB d3 = image d2 \<and>
         transition d3 = toTransition (transition_type L) \<and>
         transitionValue d3 = transitionValue_of (rvalue t)
            (rvalue (start_time rng) - rvalue (in_offset L) - 1)
            (rvalue (start_time rng) + rvalue (out_offset L)) \<and>
         (\<forall>cA. fst (neighbors_of tr (ci - 1)) = Some (ClipC cA) \<longrightarrow>
            readVideoFrame io p2 ti tr (ci - 2) cA t vl None = Some (p3, image d3)) \<and>
         ((\<forall>cA. fst (neighbors_of tr (ci - 1)) \<noteq> Some (ClipC cA)) \<longrightarrow>
            p3 = p2 \<and> image d3 = imageB d2)"
  using assms unfolding left_part_def Let_def
  by (auto split: option.splits Composable.splits)

lemma item_layer_produced:
  assumes "item_layer io p ti tr ci t vl img = (p', Produced d)"
    and "trimmed_range_in_parent tr ci = Some rng"
  shows "\<exists>p1 d1 p2 d2.
     clip_part io ti tr ci t vl img (p, LayerData_default) = Some (p1, d1) \<and>
     right_part io ti tr ci rng t vl (p1, d1) = Some (p2, d2) \<and>
     left_part io ti tr ci rng t vl (p2, d2) = Some (p', d)"
  using assms unfolding item_layer_def
  by (auto split: option.splits if_splits)


lemma right_part_image:
  "right_part io ti tr ci rng t vl (p1, d1) = Some (p2, d2) \<Longrightarrow> image d2 = image d1"
  unfolding right_part_def Let_def
  by (auto split: option.splits Composable.splits if_splits)

lemma transitionValue_of_eq:
  "b - a \<noteq> 0 \<Longrightarrow> transitionValue_of v a b = Some ((v - a) / (b - a))"
  by (simp add: transitionValue_of_def)

text \<open>
  C3, as the claim states it, fails. The clip B of ten frames starts at 48 and ends at
  57, with a dissolve on each side. At the track time 52 its right neighbour is a
  transition and 52 is later than 57 - 6, so the claim gives the phase (52 - 51) / (64 -
  51) = 1/13 and a secondary image read from the clip C. The left transition is active
  as well (52 is earlier than 48 + 6), and its branch runs last: the layer has the phase
  11/13, the primary image of A and the secondary image of B.
\<close>

theorem both_transitions_active:
  "child_at ex_short 2 = Some (ClipC (ex_clip ''B'' 10)) \<and>
   trimmed_range_in_parent ex_short 2 = Some (TR (RT 48 24) (RT 10 24)) \<and>
   contains (TR (RT 48 24) (RT 10 24)) (RT 52 24) \<and>
   end_time_inclusive (TR (RT 48 24) (RT 10 24)) = RT 57 24 \<and>
   snd (neighbors_of ex_short 2) = Some (TransitionC (ex_dissolve 6 6)) \<and>
   rt_gt (RT 52 24) (rt_sub (RT 57 24) (in_offset (ex_dissolve 6 6))) \<and>
   transitionValue_of 52 (57 - 6) (57 + 6 + 1) = Some (1 / 13) \<and>
   video_future ex_io_keyed (0, 4) (RT 0 24) 0 = Future False (Value (Some 4)) \<and>
   snd (item_layer ex_io_keyed ex_short_init 0 ex_short 2 (RT 52 24) 0 None) =
     Produced \<lparr>image = Future False (Value (Some 0)), imageB = Future False (Value (Some 2)),
               transition = Dissolve, transitionValue = Some (11 / 13)\<rparr>"
  by code_simp


text \<open>
  C3, amended. For an item whose range in the track contains the track time \<open>t\<close> and
  for which a layer is produced: if its right neighbour is a transition, \<open>t\<close> is later
  than the inclusive end minus the in-offset, and no left transition is active at \<open>t\<close>,
  the layer has the kind of that transition, the phase \<open>(t - a) / (b - a)\<close> with \<open>a\<close> the
  inclusive end minus the in-offset and \<open>b\<close> the inclusive end plus the out-offset plus
  one, the primary image of the read of the clip itself and the secondary image of the
  read of the clip after the transition at the same track time. If its left neighbour is
  a transition and \<open>t\<close> is earlier than the start plus the out-offset (whatever the right
  neighbour is), the layer has the kind of the left transition, the phase with \<open>a\<close> the
  start minus the in-offset minus one and \<open>b\<close> the start plus the out-offset, the read of
  the clip itself as the secondary image and the read of the clip before the transition
  as the primary image. The phase is computed on the values of the times; it is the
  quotient unless \<open>b = a\<close>.
\<close>

theorem transition_layer:
  "item_layer io p ti tr ci t vl img = (p', Produced d) \<Longrightarrow>
   trimmed_range_in_parent tr ci = Some rng \<Longrightarrow>
     (\<forall>T. snd (neighbors_of tr ci) = Some (TransitionC T) \<and>
          rt_gt t (rt_sub (end_time_inclusive rng) (in_offset T)) \<and>
          \<not> (\<exists>L. fst (neighbors_of tr ci) = Some (TransitionC L) \<and>
                  rt_lt t (rt_add (start_time rng) (out_offset L))) \<longrightarrow>
        transition d = toTransition (transition_type T) \<and>
        transitionValue d = transitionValue_of (rvalue t)
           (rvalue (end_time_inclusive rng) - rvalue (in_offset T))
           (rvalue (end_time_inclusive rng) + rvalue (out_offset T) + 1) \<and>
        (\<forall>c. child_at tr ci = Some (ClipC c) \<longrightarrow>
           (\<exists>p1. readVideoFrame io p ti tr ci c t vl img = Some (p1, image d))) \<and>
        (\<forall>cB. child_at tr (ci + 2) = Some (ClipC cB) \<longrightarrow>
           (\<exists>p1. readVideoFrame io p1 ti tr (ci + 2) cB t vl None = Some (p', imageB d)))) \<and>
     (\<forall>L. fst (neighbors_of tr ci) = Some (TransitionC L) \<and>
          rt_lt t (rt_add (start_time rng) (out_offset L)) \<longrightarrow>
        transition d = toTransition (transition_type L) \<and>
        transitionValue d = transitionValue_of (rvalue t)
           (rvalue (start_time rng) - rvalue (in_offset L) - 1)
           (rvalue (start_time rng) + rvalue (out_offset L)) \<and>
        (\<forall>c. child_at tr ci = Some (ClipC c) \<longrightarrow>
           (\<exists>p1. readVideoFrame io p ti tr ci c t vl img = Some (p1, imageB d))) \<and>
        (\<forall>cA. fst (neighbors_of tr (ci - 1)) = Some (ClipC cA) \<longrightarrow>
           (\<exists>p2. readVideoFrame io p2 ti tr (ci - 2) cA t vl None = Some (p', image d)))) \<and>
     (\<forall>v a b. b - a \<noteq> 0 \<longrightarrow> transitionValue_of v a b = Some ((v - a) / (b - a)))"
proof -
  assume prod: "item_layer io p ti tr ci t vl img = (p', Produced d)"
    and rng: "trimmed_range_in_parent tr ci = Some rng"
  from item_layer_produced[OF prod rng] obtain p1 d1 p2 d2 where
    cp: "clip_part io ti tr ci t vl img (p, LayerData_default) = Some (p1, d1)" and
    rp: "right_part io ti tr ci rng t vl (p1, d1) = Some (p2, d2)" and
    lp: "left_part io ti tr ci rng t vl (p2, d2) = Some (p', d)" by blast
  note c = clip_part_result[OF cp]
  note ri = right_part_image[OF rp]
  have right: "transition d = toTransition (transition_type T) \<and>
        transitionValue d = transitionValue_of (rvalue t)
           (rvalue (end_time_inclusive rng) - rvalue (in_offset T))
           (rvalue (end_time_inclusive rng) + rvalue (out_offset T) + 1) \<and>
        (\<forall>c. child_at tr ci = Some (ClipC c) \<longrightarrow>
           (\<exists>p1. readVideoFrame io p ti tr ci c t vl img = Some (p1, image d))) \<and>
        (\<forall>cB. child_at tr (ci + 2) = Some (ClipC cB) \<longrightarrow>
           (\<exists>p1. readVideoFrame io p1 ti tr (ci + 2) cB t vl None = Some (p', imageB d)))"
    if n: "snd (neighbors_of tr ci) = Some (TransitionC T)"
      and g: "rt_gt t (rt_sub (end_time_inclusive rng) (in_offset T))"
      and nl: "\<not> (\<exists>L. fst (neighbors_of tr ci) = Some (TransitionC L) \<and>
                  rt_lt t (rt_add (start_time rng) (out_offset L)))" for T
  proof -
    have "left_part io ti tr ci rng t vl (p2, d2) = Some (p2, d2)"
      using nl by (intro left_part_inactive) blast
    with lp have e: "p' = p2" "d = d2" by simp_all
    from right_part_active[OF rp n g] c ri e show ?thesis by auto
  qed
  have left: "transition d = toTransition (transition_type L) \<and>
        transitionValue d = transitionValue_of (rvalue t)
           (rvalue (start_time rng) - rvalue (in_offset L) - 1)
           (rvalue (start_time rng) + rvalue (out_offset L)) \<and>
        (\<forall>c. child_at tr ci = Some (ClipC c) \<longrightarrow>
           (\<exists>p1. readVideoFrame io p ti tr ci c t vl img = Some (p1, imageB d))) \<and>
        (\<forall>cA. fst (neighbors_of tr (ci - 1)) = Some (ClipC cA) \<longrightarrow>
           (\<exists>p2. readVideoFrame io p2 ti tr (ci - 2) cA t vl None = Some (p', image d)))"
    if n: "fst (neighbors_of tr ci) = Some (TransitionC L)"
      and g: "rt_lt t (rt_add (start_time rng) (out_offset L))" for L
    using left_part_active[OF lp n g] c ri by auto
  show ?thesis
    using right left by (simp add: transitionValue_of_eq)
qed

theorem transition_layer_witness:
  "trimmed_range_in_parent ex_track 0 = Some (TR (RT 0 24) (RT 48 24)) \<and>
   snd (neighbors_of ex_track 0) = Some (TransitionC (ex_dissolve 6 6)) \<and>
   rt_gt (RT 45 24) (rt_sub (end_time_inclusive (TR (RT 0 24) (RT 48 24))) (in_offset (ex_dissolve 6 6))) \<and>
   fst (neighbors_of ex_track 0) = None \<and>
   snd (item_layer ex_io_keyed ex_init 0 ex_track 0 (RT 45 24) 0 None) =
     Produced \<lparr>image = Future False (Value (Some 0)), imageB = Future False (Value (Some 2)),
               transition = Dissolve, transitionValue = Some (4 / 13)\<rparr> \<and>
   transitionValue_of 45 (47 - 6) (47 + 6 + 1) = Some (4 / 13) \<and>
   trimmed_range_in_parent ex_track 2 = Some (TR (RT 48 24) (RT 48 24)) \<and>
   fst (neighbors_of ex_track 2) = Some (TransitionC (ex_dissolve 6 6)) \<and>
   rt_lt (RT 50 24) (rt_add (start_time (TR (RT 48 24) (RT 48 24))) (out_offset (ex_dissolve 6 6))) \<and>
   snd (item_layer ex_io_keyed ex_init 0 ex_track 2 (RT 50 24) 0 None) =
     Produced \<lparr>image = Future False (Value (Some 0)), imageB = Future False (Value (Some 2)),
               transition = Dissolve, transitionValue = Some (9 / 13)\<rparr> \<and>
   transitionValue_of 50 (48 - 6 - 1) (48 + 6) = Some (9 / 13)"
proof -
  let ?d0 = "\<lparr>image = Future False (Value (Some 0)), imageB = Future False (Value (Some 2)),
               transition = Dissolve, transitionValue = Some (4 / 13)\<rparr>"
  have facts: "trimmed_range_in_parent ex_track 0 = Some (TR (RT 0 24) (RT 48 24)) \<and>
   snd (neighbors_of ex_track 0) = Some (TransitionC (ex_dissolve 6 6)) \<and>
   rt_gt (RT 45 24) (rt_sub (end_time_inclusive (TR (RT 0 24) (RT 48 24))) (in_offset (ex_dissolve 6 6))) \<and>
   fst (neighbors_of ex_track 0) = None \<and>
   snd (item_layer ex_io_keyed ex_init 0 ex_track 0 (RT 45 24) 0 None) = Produced ?d0 \<and>
   transitionValue_of 45 (47 - 6) (47 + 6 + 1) = Some (4 / 13) \<and>
   trimmed_range_in_parent ex_track 2 = Some (TR (RT 48 24) (RT 48 24)) \<and>
   fst (neighbors_of ex_track 2) = Some (TransitionC (ex_dissolve 6 6)) \<and>
   rt_lt (RT 50 24) (rt_add (start_time (TR (RT 48 24) (RT 48 24))) (out_offset (ex_dissolve 6 6))) \<and>
   snd (item_layer ex_io_keyed ex_init 0 ex_track 2 (RT 50 24) 0 None) =
     Produced \<lparr>image = Future False (Value (Some 0)), imageB = Future False (Value (Some 2)),
               transition = Dissolve, transitionValue = Some (9 / 13)\<rparr> \<and>
   transitionValue_of 50 (48 - 6 - 1) (48 + 6) = Some (9 / 13)"
    by code_simp
  obtain p' res where i: "item_layer ex_io_keyed ex_init 0 ex_track 0 (RT 45 24) 0 None = (p', res)"
    by (cases "item_layer ex_io_keyed ex_init 0 ex_track 0 (RT 45 24) 0 None")
  with facts have prod: "item_layer ex_io_keyed ex_init 0 ex_track 0 (RT 45 24) 0 None = (p', Produced ?d0)"
    by simp
  from facts have rng: "trimmed_range_in_parent ex_track 0 = Some (TR (RT 0 24) (RT 48 24))" by simp
  from transition_layer[OF prod rng] facts show ?thesis by simp
qed

subsection \<open>The boundaries of a transition\<close>





lemma rt_same_rate:
  "rt_add (RT x r) (RT y r) = RT (y + x) r"
  "rt_sub (RT x r) (RT y r) = RT (x - y) r"
  "rescaled_to (RT x r) r = RT x r"
  "rvalue (RT x r) = x" "rrate (RT x r) = r"
  by (simp_all add: rt_add_def rt_sub_def rescaled_to_def value_rescaled_to_def RT_def)


lemma TR_sel: "start_time (TR s d) = s" "duration (TR s d) = d"
  by (simp_all add: TR_def)
















subsection \<open>The promises of the reachable states\<close>

text \<open>
  Every state that a new timeline reaches has distinct promises, which is what the
  completion of the requests in progress assumes.
\<close>

lemma dispatch_nextPromise: "nextPromise (dispatch io p) = nextPromise p"
proof -
  let ?g = "gather (requestCount p) (length (requestsInProgress p)) [] (requests p)"
  have "nextPromise (traverse_all io rs q) = nextPromise q" for rs q
  proof (induction rs arbitrary: q)
    case Nil
    show ?case by simp
  next
    case (Cons r rs)
    have "nextPromise (traverse io q r) = nextPromise q"
      using ore_fields(5)[OF tracks_loop_frame[of "(q, layerData r)" io
        "rt_sub (req_time r) (globalStartTime q)" "videoLayer r" "req_image r"
        "zip [0..<length (otioTimeline q)] (otioTimeline q)"]]
      by (simp add: traverse_def Let_def)
    with Cons.IH[of "traverse io q r"] show ?case by simp
  qed
  then show ?thesis by (simp add: dispatch_def Let_def)
qed

lemma tick_promises:
  "requests (tick io p) = drop (requestCount p - length (requestsInProgress p)) (requests p)"
  "requestsInProgress (tick io p) =
     filter (\<lambda>r. \<not> all_futures_ready (layerData r)) (requestsInProgress (dispatch io p))"
  "nextPromise (tick io p) = nextPromise p"
  by (simp_all add: tick_def delReaders_def stopReaders_def frameRequests_dispatch
      finish_requests_kept dispatch_fields dispatch_nextPromise split: prod.splits)

lemma tick_fresh:
  assumes "promises_fresh p"
  shows "promises_fresh (tick io p)"
proof -
  let ?k = "requestCount p - length (requestsInProgress p)"
  let ?D = "requestsInProgress (dispatch io p)"
  let ?P = "\<lambda>r. \<not> all_futures_ready (layerData r)"
  have m: "map promise ?D = map promise (requestsInProgress p) @ map promise (take ?k (requests p))"
    by (rule dispatch_fields(2))
  from assms have d: "distinct (map promise (requests p) @ map promise (requestsInProgress p))"
    and b: "\<forall>r \<in> set (requests p) \<union> set (requestsInProgress p). promise r < nextPromise p"
    by (auto simp: promises_fresh_def list_all_iff)
  have split: "map promise (requests p) =
      map promise (take ?k (requests p)) @ map promise (drop ?k (requests p))"
    by (simp add: map_append[symmetric] del: map_append)
  from d have dall: "distinct (map promise (drop ?k (requests p)) @ map promise ?D)"
    unfolding m by (subst (asm) split) auto
  have sub: "set (map promise (filter ?P ?D)) \<subseteq> set (map promise ?D)" by auto
  have df: "distinct (map promise (filter ?P ?D))"
    using dall by (simp add: distinct_map_filter)
  from dall sub df have dist: "distinct (map promise (drop ?k (requests p)) @ map promise (filter ?P ?D))"
    by auto
  have "promise ` set ?D = set (map promise ?D)" by simp
  also have "\<dots> \<subseteq> promise ` (set (requests p) \<union> set (requestsInProgress p))"
    unfolding m using set_take_subset[of ?k "requests p"] by auto
  finally have bd: "\<forall>r \<in> set ?D. promise r < nextPromise p" using b by auto
  have bq: "\<forall>r \<in> set (drop ?k (requests p)). promise r < nextPromise p"
    using b set_drop_subset[of ?k "requests p"] by auto
  show ?thesis
    using dist bd bq by (auto simp: promises_fresh_def tick_promises list_all_iff)
qed

lemma act_fresh: "promises_fresh p \<Longrightarrow> promises_fresh (act a p)"
proof (cases a)
  case (ATick io)
  assume "promises_fresh p"
  with ATick show ?thesis by (simp add: tick_fresh)
next
  case (AGetFrame t vl img)
  assume "promises_fresh p"
  with AGetFrame show ?thesis
    by (auto simp: promises_fresh_def getFrame_def Let_def list_all_iff less_Suc_eq)
next
  case ACancelFrames
  assume "promises_fresh p"
  with ACancelFrames show ?thesis by (simp add: promises_fresh_def cancelFrames_def)
next
  case (ASetActiveRanges rs)
  assume "promises_fresh p"
  with ASetActiveRanges show ?thesis by (simp add: promises_fresh_def setActiveRanges_def)
next
  case AReadersFinish
  assume "promises_fresh p"
  with AReadersFinish show ?thesis
    by (auto simp: promises_fresh_def readers_finish_def list_all_iff comp_def)
qed

lemma run_fresh: "promises_fresh p \<Longrightarrow> promises_fresh (run as p)"
  by (induction as arbitrary: p) (simp_all add: act_fresh)

lemma reachable_promises_distinct:
  "distinct (map promise (requests (run as (Private_init tracks dur gst)) @
                          requestsInProgress (run as (Private_init tracks dur gst))))"
proof -
  have "promises_fresh (Private_init tracks dur gst)"
    by (simp add: promises_fresh_def Private_init_def)
  from run_fresh[OF this, of as] show ?thesis by (simp add: promises_fresh_def)
qed


subsection \<open>The range of a reader when all times have one rate\<close>

text \<open>
  For a clip of a track without source range, whose range in the track starts at \<open>c\<close>
  and whose trimmed range lasts \<open>d\<close>, with the global start time \<open>g\<close>, all at the rate \<open>r\<close>: the range that \<open>stopReaders\<close>
  compares with the active ranges starts at \<open>g + c\<close> minus the left in-offset and lasts
  \<open>d\<close> plus the left in-offset plus the right out-offset.
\<close>

lemma rt_same_rate_right:
  "rrate y = r \<Longrightarrow> rt_sub (RT x r) y = RT (x - rvalue y) r"
  "rrate y = r \<Longrightarrow> rt_add (RT x r) y = RT (rvalue y + x) r"
  by (simp_all add: rt_add_def rt_sub_def value_rescaled_to_def RT_def)

lemma reader_range_same_rate:
  assumes k: "ti < length (otioTimeline p)" and tr: "otioTimeline p ! ti = tr"
    and sr: "source_range tr = None"
    and c: "child_at tr ci = Some (ClipC clip)"
    and t: "trimmed_range clip = TR (RT s r) (RT d r)"
    and st: "start_time (range_of_child_at_index tr ci) = RT c r"
    and g: "globalStartTime p = RT g r"
    and l: "\<And>t. fst (neighbors_of tr ci) = Some (TransitionC t) \<Longrightarrow> rrate (in_offset t) = r"
    and ro: "\<And>t. snd (neighbors_of tr ci) = Some (TransitionC t) \<Longrightarrow> rrate (out_offset t) = r"
  shows "reader_range p (ti, ci) =
     Some (TR (RT (g + c - in_handle tr ci) r) (RT (d + in_handle tr ci + out_handle tr ci) r))"
proof -
  have cr: "transformed_time_range tr ci clip (trimmed_range clip) = TR (RT c r) (RT d r)"
    by (simp add: transformed_time_range_def sr t st TR_sel rt_same_rate)
  define s1 where "s1 = (case fst (neighbors_of tr ci) of
      Some (TransitionC t) \<Rightarrow> rt_sub (RT c r) (in_offset t) | _ \<Rightarrow> RT c r)"
  define e1 where "e1 = (case snd (neighbors_of tr ci) of
      Some (TransitionC t) \<Rightarrow> rt_add (RT (d + c) r) (out_offset t) | _ \<Rightarrow> RT (d + c) r)"
  have s1: "s1 = RT (c - in_handle tr ci) r"
    using l by (simp add: s1_def in_handle_def rt_same_rate_right
        split: option.splits Composable.splits)
  have e1: "e1 = RT (d + c + out_handle tr ci) r"
    using ro by (simp add: e1_def out_handle_def rt_same_rate_right add.commute
        split: option.splits Composable.splits)
  have "reader_range p (ti, ci) =
      Some (range_from_start_end_time (rt_add (RT g r) s1) (rt_add (RT g r) e1))"
    using k by (simp add: reader_range_def tr c Let_def cr TR_sel rt_same_rate g s1_def e1_def
        cong: option.case_cong Composable.case_cong)
  also have "\<dots> = Some (TR (RT (g + c - in_handle tr ci) r)
      (RT (d + in_handle tr ci + out_handle tr ci) r))"
    by (simp add: s1 e1 range_from_start_end_time_def rt_same_rate algebra_simps)
  finally show ?thesis .
qed

end
